theory Spec2Isabelle
  imports Main "HOL-Library.Word"
begin

section \<open>Go values used by the sensormesh daemon\<close>

text \<open>
  A Go \<^verbatim>\<open>[]byte\<close> is either the nil slice or a sequence of bytes; \<^verbatim>\<open>reflect.DeepEqual\<close>
  tells the two apart, so the model keeps the difference: \<open>None\<close> is the nil slice and
  \<open>Some bs\<close> a non-nil slice holding \<open>bs\<close>. A Go \<^verbatim>\<open>string\<close> is a byte sequence, here a
  \<open>string\<close> (one \<open>char\<close> per byte). A Go \<^verbatim>\<open>error\<close> is represented by its message.
\<close>

type_synonym bytes = "string option"

type_synonym err = string

definition newline :: char where
  "newline = CHR 0x0A"

definition len :: "bytes \<Rightarrow> nat" where
  "len b = (case b of None \<Rightarrow> 0 | Some bs \<Rightarrow> length bs)"

definition string_of :: "bytes \<Rightarrow> string" where
  \<comment> \<open>The conversion \<^verbatim>\<open>string(b)\<close>: the bytes of the slice, none for the nil slice.\<close>
  "string_of b = (case b of None \<Rightarrow> [] | Some bs \<Rightarrow> bs)"

definition DeepEqual :: "bytes \<Rightarrow> bytes \<Rightarrow> bool" where
  \<comment> \<open>\<^verbatim>\<open>reflect.DeepEqual\<close> at type \<^verbatim>\<open>[]byte\<close>: slices of different nil-ness are never
      equal, then the lengths are compared, then the bytes.\<close>
  "DeepEqual v1 v2 =
     (if (v1 = None) \<noteq> (v2 = None) then False
      else if len v1 \<noteq> len v2 then False
      else string_of v1 = string_of v2)"

function trimRightByte :: "string \<Rightarrow> char \<Rightarrow> string" where
  "trimRightByte s c =
     (if 0 < length s \<and> s ! (length s - 1) = c then trimRightByte (take (length s - 1) s) c
      else s)"
  by pat_completeness auto
termination
  by (relation "measure (\<lambda>(s, c). length s)") auto

declare trimRightByte.simps [simp del]

definition TrimRight :: "string \<Rightarrow> char \<Rightarrow> string" where
  \<comment> \<open>\<^verbatim>\<open>strings.TrimRight(s, cutset)\<close> for a cutset of one ASCII byte, which the library
      answers with its byte loop.\<close>
  "TrimRight s c = trimRightByte s c"

definition Sprintln :: "string \<Rightarrow> string" where
  \<comment> \<open>\<^verbatim>\<open>fmt.Sprintln\<close> of one string operand, which is also what \<^verbatim>\<open>fmt.Println\<close> writes.\<close>
  "Sprintln s = s @ [newline]"

definition Output :: "string \<Rightarrow> string" where
  \<comment> \<open>\<^verbatim>\<open>(*log.Logger).Output\<close> for a logger with the empty prefix and no flags: the bytes
      handed to the writer in one \<^verbatim>\<open>Write\<close> call.\<close>
  "Output s = (if length s = 0 \<or> s ! (length s - 1) \<noteq> newline then s @ [newline] else s)"

definition Println :: "string \<Rightarrow> string" where
  \<comment> \<open>\<^verbatim>\<open>(*log.Logger).Println\<close> of one string operand.\<close>
  "Println s = Output (Sprintln s)"

datatype operation = Operation (GetValue: bytes)

datatype panic =
    ConfigMissing err
  | ApiFailed err
  | OrbitFailed err
  | LogStoreFailed err
  | ConfigWriteFailed err
  | AppendFailed err
  | OpenFailed err
  | ListFailed err
  | IndexOutOfRange nat nat

datatype goroutine = NotStarted | Running | Returned | Panicked panic

section \<open>The process state\<close>

text \<open>
  The package-level variables of \<^verbatim>\<open>cmd/daemon.go\<close>, the locals of the two loops that live
  across iterations, and the effects the process has on its collaborators, recorded as
  traces: the payloads handed to \<^verbatim>\<open>logStore.Add\<close>, the number of \<^verbatim>\<open>logStore.List\<close> calls,
  the writes issued on the log file (one element per call, oldest first), how often the file
  was opened and closed, and the configuration in memory and on disk. Console messages are
  recorded only where the program echoes a log value.
\<close>

record daemon =
  ctx_done :: bool
  logbuf :: string
  log_adds :: "string list"
  list_calls :: nat
  lastTriggerTime :: "64 word"
  lastValue :: bytes
  sink :: "string list"
  file_opens :: nat
  file_closes :: nat
  stdout :: "string list"
  conf :: "string \<rightharpoonup> string"
  conf_file :: "string \<rightharpoonup> string"
  conf_writes :: nat
  publisher :: goroutine
  subscriber :: goroutine
  main_routine :: goroutine
  exit_code :: "nat option"

definition boot :: "(string \<rightharpoonup> string) \<Rightarrow> daemon" where
  \<comment> \<open>The process before \<^verbatim>\<open>PreRun\<close>: zero values everywhere, the configuration file as found
      on disk.\<close>
  "boot disk =
     \<lparr> ctx_done = False, logbuf = [], log_adds = [], list_calls = 0, lastTriggerTime = 0,
       lastValue = None, sink = [], file_opens = 0, file_closes = 0, stdout = [],
       conf = Map.empty, conf_file = disk, conf_writes = 0,
       publisher = NotStarted, subscriber = NotStarted, main_routine = Running,
       exit_code = None \<rparr>"

definition cancel :: "daemon \<Rightarrow> daemon" where
  "cancel s = s\<lparr>ctx_done := True\<rparr>"

definition exited :: "daemon \<Rightarrow> bool" where
  "exited s = (exit_code s \<noteq> None)"

section \<open>Setup: \<^verbatim>\<open>PreRun\<close> of \<^verbatim>\<open>cmd/daemon.go\<close>\<close>

text \<open>
  The answers of the collaborators during setup: whether the configuration file exists,
  the configuration \<^verbatim>\<open>shared.LoadConfigurationFromFile\<close> loads, the IPFS client, the OrbitDB
  instance, the log store (its address when it could be opened) and \<^verbatim>\<open>WriteConfig\<close>.
\<close>

record setup_env =
  config_exists :: "err option"
  loaded :: "string \<rightharpoonup> string"
  ipfs_api :: "err option"
  orbitdb :: "err option"
  log_store :: "err + string"
  write_config :: "err option"

definition Set :: "string \<Rightarrow> string \<Rightarrow> daemon \<Rightarrow> daemon" where
  \<comment> \<open>\<^verbatim>\<open>shared.ViperConfs.Set\<close>: the value is stored in memory only.\<close>
  "Set key val s = s\<lparr>conf := fun_upd (conf s) key (Some val)\<rparr>"

definition GetString :: "string \<Rightarrow> daemon \<Rightarrow> string" where
  \<comment> \<open>\<^verbatim>\<open>shared.ViperConfs.GetString\<close>: the empty string for a key that is not set.\<close>
  "GetString key s = (case conf s key of None \<Rightarrow> [] | Some v \<Rightarrow> v)"

definition WriteConfig :: "daemon \<Rightarrow> daemon" where
  \<comment> \<open>A successful \<^verbatim>\<open>shared.ViperConfs.WriteConfig\<close>: the configuration in memory replaces
      the one on disk.\<close>
  "WriteConfig s = s\<lparr>conf_file := conf s, conf_writes := conf_writes s + 1\<rparr>"

definition good_setup :: "(string \<rightharpoonup> string) \<Rightarrow> string \<Rightarrow> setup_env" where
  \<comment> \<open>A setup in which every collaborator answers without error.\<close>
  "good_setup cfg address =
     \<lparr> config_exists = None, loaded = cfg, ipfs_api = None, orbitdb = None,
       log_store = Inr address, write_config = None \<rparr>"

definition PreRun :: "setup_env \<Rightarrow> daemon \<Rightarrow> panic option \<times> daemon" where
  "PreRun env s =
     (case config_exists env of
        Some e \<Rightarrow> (Some (ConfigMissing e), s)
      | None \<Rightarrow>
         (let s1 = s\<lparr>conf := loaded env\<rparr> in
          (case ipfs_api env of
             Some e \<Rightarrow> (Some (ApiFailed e), s1)
           | None \<Rightarrow>
              (let s2 = s1\<lparr>ctx_done := False\<rparr> in
               (case orbitdb env of
                  Some e \<Rightarrow> (Some (OrbitFailed e), s2)
                | None \<Rightarrow>
                   (case log_store env of
                      Inl e \<Rightarrow> (Some (LogStoreFailed e), s2)
                    | Inr address \<Rightarrow>
                       (let s3 = Set ''orbitdb.storeaddress'' address s2 in
                        (case write_config env of
                           Some e \<Rightarrow> (Some (ConfigWriteFailed e), s3)
                         | None \<Rightarrow> (None, WriteConfig s3)))))))))"

section \<open>The producer loop: \<^verbatim>\<open>publish\<close>\<close>

text \<open>
  One pass through the body of the \<^verbatim>\<open>for\<close> loop. Its inputs are the clock reading
  \<^verbatim>\<open>time.Now().Unix()\<close>, the bytes the zerolog logger writes into \<^verbatim>\<open>logbuf\<close> for the
  whisper event, and the error (if any) of \<^verbatim>\<open>logStore.Add\<close>. The result is the panic the
  pass ends in, if it does, and the state it leaves.
\<close>

definition publish_iter ::
  "64 word \<Rightarrow> string \<Rightarrow> err option \<Rightarrow> daemon \<Rightarrow> panic option \<times> daemon" where
  "publish_iter currentTime event add_err s =
     (if word_sle 30 (currentTime - lastTriggerTime s) then
        let s1 = s\<lparr>lastTriggerTime := currentTime\<rparr>;
            s2 = s1\<lparr>logbuf := logbuf s1 @ event\<rparr>;
            s3 = s2\<lparr>log_adds := log_adds s2 @ [logbuf s2]\<rparr>
        in (case add_err of
              Some e \<Rightarrow> (Some (AppendFailed e), s3)
            | None \<Rightarrow> (None, s3\<lparr>logbuf := []\<rparr>))
      else (None, s\<lparr>logbuf := []\<rparr>))"

section \<open>The consumer loop: \<^verbatim>\<open>subscribe\<close>\<close>

text \<open>
  One pass through the body of the \<^verbatim>\<open>for\<close> loop; its input is what \<^verbatim>\<open>logStore.List\<close>
  returns. Indexing \<^verbatim>\<open>op[0]\<close> is guarded by the length test of the source.
\<close>

definition subscribe_iter :: "err + operation list \<Rightarrow> daemon \<Rightarrow> panic option \<times> daemon" where
  "subscribe_iter list_result s =
     (let s1 = s\<lparr>list_calls := list_calls s + 1\<rparr> in
      case list_result of
        Inl e \<Rightarrow> (Some (ListFailed e), s1)
      | Inr op \<Rightarrow>
          if 0 < length op \<and> \<not> DeepEqual (GetValue (op ! 0)) (lastValue s1) then
            let s2 = s1\<lparr>lastValue := GetValue (op ! 0)\<rparr>
            in (None, s2\<lparr>sink := sink s2 @
                  [Println (TrimRight (string_of (GetValue (op ! 0))) newline)]\<rparr>)
          else (None, s1))"

section \<open>The running daemon: \<^verbatim>\<open>Run\<close>\<close>

text \<open>
  \<^verbatim>\<open>Run\<close> starts \<^verbatim>\<open>publish\<close> and \<^verbatim>\<open>subscribe\<close> as goroutines and waits for the interrupt
  signal. The process is a state machine driven by events, each the next thing one of its
  three goroutines or the runtime does:
  \<^item> \<open>PubStart t\<close>: \<^verbatim>\<open>publish\<close> registers its deferred \<^verbatim>\<open>cancel\<close> and reads the clock;
  \<^item> \<open>PubIter t ev r\<close>: one pass of the producer loop; a panic runs the deferred \<^verbatim>\<open>cancel\<close>;
  \<^item> \<open>SubStart r\<close>: \<^verbatim>\<open>subscribe\<close> opens the log file; failure panics (only \<^verbatim>\<open>cancel\<close> is
    deferred by then), success defers \<^verbatim>\<open>file.Close\<close>;
  \<^item> \<open>SubIter r\<close>: one pass of the consumer loop; a panic runs the deferred \<^verbatim>\<open>file.Close\<close>
    and then the deferred \<^verbatim>\<open>cancel\<close>;
  \<^item> \<open>Sigint\<close>: the interrupt arrives, \<^verbatim>\<open>Run\<close> prints its message and returns;
  \<^item> \<open>ExitMain\<close>: the main goroutine having returned, the process exits with status 0;
  \<^item> \<open>ExitPanic\<close>: a goroutine having panicked without recovery, the runtime ends the
    process with status 2.
  An event that cannot happen in a state (the goroutine is not at that point, or the process
  is gone) leaves the state as it is. Neither loop body reads \<open>ctx_done\<close>.
\<close>

datatype event =
    PubStart "64 word"
  | PubIter "64 word" string "err option"
  | SubStart "err option"
  | SubIter "err + operation list"
  | Sigint
  | ExitMain
  | ExitPanic

definition has_panicked :: "daemon \<Rightarrow> bool" where
  "has_panicked s =
     ((case publisher s of Panicked _ \<Rightarrow> True | _ \<Rightarrow> False) \<or>
      (case subscriber s of Panicked _ \<Rightarrow> True | _ \<Rightarrow> False) \<or>
      (case main_routine s of Panicked _ \<Rightarrow> True | _ \<Rightarrow> False))"

fun daemon_step :: "event \<Rightarrow> daemon \<Rightarrow> daemon" where
  "daemon_step (PubStart t) s =
     (if \<not> exited s \<and> publisher s = NotStarted
      then s\<lparr>lastTriggerTime := t, publisher := Running\<rparr> else s)"
| "daemon_step (PubIter t ev r) s =
     (if \<not> exited s \<and> publisher s = Running then
        (case publish_iter t ev r s of
           (None, s') \<Rightarrow> s'
         | (Some p, s') \<Rightarrow> (cancel s')\<lparr>publisher := Panicked p\<rparr>)
      else s)"
| "daemon_step (SubStart r) s =
     (if \<not> exited s \<and> subscriber s = NotStarted then
        (case r of
           Some e \<Rightarrow> (cancel (s\<lparr>lastValue := None\<rparr>))\<lparr>subscriber := Panicked (OpenFailed e)\<rparr>
         | None \<Rightarrow> s\<lparr>lastValue := None, file_opens := file_opens s + 1, subscriber := Running\<rparr>)
      else s)"
| "daemon_step (SubIter r) s =
     (if \<not> exited s \<and> subscriber s = Running then
        (case subscribe_iter r s of
           (None, s') \<Rightarrow> s'
         | (Some p, s') \<Rightarrow>
             (cancel (s'\<lparr>file_closes := file_closes s' + 1\<rparr>))\<lparr>subscriber := Panicked p\<rparr>)
      else s)"
| "daemon_step Sigint s =
     (if \<not> exited s \<and> main_routine s = Running then s\<lparr>main_routine := Returned\<rparr> else s)"
| "daemon_step ExitMain s =
     (if \<not> exited s \<and> main_routine s = Returned then s\<lparr>exit_code := Some 0\<rparr> else s)"
| "daemon_step ExitPanic s =
     (if \<not> exited s \<and> has_panicked s then s\<lparr>exit_code := Some 2\<rparr> else s)"

definition daemon_run :: "event list \<Rightarrow> daemon \<Rightarrow> daemon" where
  "daemon_run es s = fold daemon_step es s"

definition sink_line :: "bytes \<Rightarrow> string" where
  \<comment> \<open>The bytes one accepted log value adds to the log file.\<close>
  "sink_line v = Println (TrimRight (string_of v) newline)"

fun fetched :: "event list \<Rightarrow> bytes list" where
  \<comment> \<open>The newest values the \<^verbatim>\<open>List\<close> calls of a run of events returned, in order; calls that
      returned no entry or an error contribute nothing.\<close>
  "fetched [] = []"
| "fetched (e # es) =
     (case e of
        SubIter (Inr op) \<Rightarrow> (if 0 < length op then GetValue (op ! 0) # fetched es else fetched es)
      | _ \<Rightarrow> fetched es)"

definition observed :: "bytes list \<Rightarrow> nat list \<Rightarrow> bytes list" where
  \<comment> \<open>What a consumer sees as newest value, poll after poll, when it sees the \<open>i\<close>-th
      produced entry on \<open>ks ! i + 1\<close> consecutive polls.\<close>
  "observed entries ks = concat (map2 (\<lambda>v k. replicate (Suc k) v) entries ks)"

section \<open>The combined-loop variant of \<^verbatim>\<open>Run\<close>\<close>

text \<open>
  The other version of the daemon command has one goroutine that appends a value, lists the
  log and echoes the newest value, and a main goroutine that saves the configuration after
  the interrupt. One pass of its loop takes the text of \<^verbatim>\<open>time.Now().String()\<close> and the
  answers of \<^verbatim>\<open>Add\<close> and \<^verbatim>\<open>List\<close>. The source indexes \<^verbatim>\<open>op[0]\<close> with no length test, so
  the bounds check is the one the Go runtime makes.
\<close>

definition combined_iter ::
  "string \<Rightarrow> err option \<Rightarrow> err + operation list \<Rightarrow> daemon \<Rightarrow> panic option \<times> daemon" where
  "combined_iter now add_err list_result s =
     (let val = GetString ''name'' s @ '' '' @ now;
          s1 = s\<lparr>log_adds := log_adds s @ [val]\<rparr>
      in (case add_err of
            Some e \<Rightarrow> (Some (AppendFailed e), s1)
          | None \<Rightarrow>
             (let s2 = s1\<lparr>list_calls := list_calls s1 + 1\<rparr>
              in (case list_result of
                    Inl e \<Rightarrow> (Some (ListFailed e), s2)
                  | Inr op \<Rightarrow>
                     (if 0 < length op
                      then (None, s2\<lparr>stdout := stdout s2 @
                                    [Sprintln (string_of (GetValue (op ! 0)))]\<rparr>)
                      else (Some (IndexOutOfRange 0 (length op)), s2))))))"

text \<open>
  The events of the combined variant: the goroutine starts, makes one pass of its loop, the
  interrupt arrives (\<^verbatim>\<open>Run\<close> then calls \<^verbatim>\<open>WriteConfig\<close>, whose error is the event's argument,
  and panics or returns), and the two ways the process ends.
\<close>

datatype combined_event =
    LoopStart
  | LoopIter string "err option" "err + operation list"
  | SigintSave "err option"
  | CExitMain
  | CExitPanic

fun combined_step :: "combined_event \<Rightarrow> daemon \<Rightarrow> daemon" where
  "combined_step LoopStart s =
     (if \<not> exited s \<and> publisher s = NotStarted then s\<lparr>publisher := Running\<rparr> else s)"
| "combined_step (LoopIter now a l) s =
     (if \<not> exited s \<and> publisher s = Running then
        (case combined_iter now a l s of
           (None, s') \<Rightarrow> s'
         | (Some p, s') \<Rightarrow> (cancel s')\<lparr>publisher := Panicked p\<rparr>)
      else s)"
| "combined_step (SigintSave w) s =
     (if \<not> exited s \<and> main_routine s = Running then
        (case w of
           Some e \<Rightarrow> s\<lparr>main_routine := Panicked (ConfigWriteFailed e)\<rparr>
         | None \<Rightarrow> (WriteConfig s)\<lparr>main_routine := Returned\<rparr>)
      else s)"
| "combined_step CExitMain s =
     (if \<not> exited s \<and> main_routine s = Returned then s\<lparr>exit_code := Some 0\<rparr> else s)"
| "combined_step CExitPanic s =
     (if \<not> exited s \<and> has_panicked s then s\<lparr>exit_code := Some 2\<rparr> else s)"

definition combined_run :: "combined_event list \<Rightarrow> daemon \<Rightarrow> daemon" where
  "combined_run es s = fold combined_step es s"

section \<open>Basic facts\<close>

lemma DeepEqual_iff: "DeepEqual a b \<longleftrightarrow> a = b"
  by (cases a; cases b) (auto simp: DeepEqual_def len_def string_of_def)

lemma trimRightByte_snoc:
  "trimRightByte (s @ [x]) c = (if x = c then trimRightByte s c else s @ [x])"
  by (subst trimRightByte.simps) simp

lemma trimRightByte_Nil: "trimRightByte [] c = []"
  by (subst trimRightByte.simps) simp

lemma trimRightByte_rev: "trimRightByte s c = rev (dropWhile (\<lambda>x. x = c) (rev s))"
  by (induction s rule: rev_induct) (simp_all add: trimRightByte_Nil trimRightByte_snoc)

lemma trimRightByte_replicate: "\<exists>k. s = trimRightByte s c @ replicate k c"
proof (induction s rule: rev_induct)
  case Nil
  show ?case by (simp add: trimRightByte_Nil)
next
  case (snoc x xs)
  then obtain k where k: "xs = trimRightByte xs c @ replicate k c" by blast
  show ?case
  proof (cases "x = c")
    case True
    have "xs @ [x] = (trimRightByte xs c @ replicate k c) @ [c]"
      using k True by simp
    also have "\<dots> = trimRightByte xs c @ replicate (Suc k) c"
      by (simp add: replicate_append_same)
    finally have eq: "xs @ [x] = trimRightByte xs c @ replicate (Suc k) c" .
    have t: "trimRightByte (xs @ [x]) c = trimRightByte xs c"
      using True by (simp add: trimRightByte_snoc)
    show ?thesis unfolding t by (rule exI [of _ "Suc k"]) (rule eq)
  next
    case False
    then have "xs @ [x] = trimRightByte (xs @ [x]) c @ replicate 0 c"
      by (simp add: trimRightByte_snoc)
    then show ?thesis by blast
  qed
qed

lemma trimRightByte_last: "trimRightByte s c \<noteq> [] \<Longrightarrow> last (trimRightByte s c) \<noteq> c"
  by (induction s rule: rev_induct) (auto simp add: trimRightByte_Nil trimRightByte_snoc)

lemma Println_eq: "Println s = s @ [newline]"
  by (simp add: Println_def Output_def Sprintln_def)

lemma sink_line_eq: "sink_line v = TrimRight (string_of v) newline @ [newline]"
  by (simp add: sink_line_def Println_eq)

lemma subscribe_iter_Inr:
  "subscribe_iter (Inr op) s =
     (if 0 < length op \<and> GetValue (op ! 0) \<noteq> lastValue s
      then (None, s\<lparr>list_calls := list_calls s + 1, lastValue := GetValue (op ! 0),
                     sink := sink s @ [sink_line (GetValue (op ! 0))]\<rparr>)
      else (None, s\<lparr>list_calls := list_calls s + 1\<rparr>))"
  by (simp add: subscribe_iter_def DeepEqual_iff sink_line_def Let_def)

lemma subscribe_iter_Inl:
  "subscribe_iter (Inl e) s = (Some (ListFailed e), s\<lparr>list_calls := list_calls s + 1\<rparr>)"
  by (simp add: subscribe_iter_def)

lemma publish_iter_cases:
  "publish_iter t ev r s =
     (if word_sle 30 (t - lastTriggerTime s) then
        (case r of
           Some e \<Rightarrow> (Some (AppendFailed e),
                      s\<lparr>lastTriggerTime := t, logbuf := logbuf s @ ev,
                        log_adds := log_adds s @ [logbuf s @ ev]\<rparr>)
         | None \<Rightarrow> (None, s\<lparr>lastTriggerTime := t, logbuf := [],
                        log_adds := log_adds s @ [logbuf s @ ev]\<rparr>))
      else (None, s\<lparr>logbuf := []\<rparr>))"
  by (simp add: publish_iter_def Let_def split: option.splits)

lemma step_PubIter:
  "daemon_step (PubIter t ev r) s =
     (if \<not> exited s \<and> publisher s = Running then
        (if word_sle 30 (t - lastTriggerTime s) then
           (case r of
              Some e \<Rightarrow> s\<lparr>lastTriggerTime := t, logbuf := logbuf s @ ev,
                          log_adds := log_adds s @ [logbuf s @ ev], ctx_done := True,
                          publisher := Panicked (AppendFailed e)\<rparr>
            | None \<Rightarrow> s\<lparr>lastTriggerTime := t, logbuf := [],
                          log_adds := log_adds s @ [logbuf s @ ev]\<rparr>)
         else s\<lparr>logbuf := []\<rparr>)
      else s)"
  by (simp add: publish_iter_cases cancel_def split: option.splits)

lemma step_SubIter:
  "daemon_step (SubIter r) s =
     (if \<not> exited s \<and> subscriber s = Running then
        (case r of
           Inl e \<Rightarrow> s\<lparr>list_calls := list_calls s + 1, file_closes := file_closes s + 1,
                       ctx_done := True, subscriber := Panicked (ListFailed e)\<rparr>
         | Inr op \<Rightarrow>
             if 0 < length op \<and> GetValue (op ! 0) \<noteq> lastValue s
             then s\<lparr>list_calls := list_calls s + 1, lastValue := GetValue (op ! 0),
                     sink := sink s @ [sink_line (GetValue (op ! 0))]\<rparr>
             else s\<lparr>list_calls := list_calls s + 1\<rparr>)
      else s)"
  by (cases r) (simp_all add: subscribe_iter_Inr subscribe_iter_Inl cancel_def)

lemma step_SubStart:
  "daemon_step (SubStart r) s =
     (if \<not> exited s \<and> subscriber s = NotStarted then
        (case r of
           Some e \<Rightarrow> s\<lparr>lastValue := None, ctx_done := True,
                       subscriber := Panicked (OpenFailed e)\<rparr>
         | None \<Rightarrow> s\<lparr>lastValue := None, file_opens := file_opens s + 1,
                       subscriber := Running\<rparr>)
      else s)"
  by (simp add: cancel_def split: option.splits)

lemmas step_simps =
  step_PubIter step_SubIter step_SubStart daemon_step.simps(1) daemon_step.simps(5-7)

declare daemon_step.simps [simp del]

lemma run_Nil: "daemon_run [] s = s"
  by (simp add: daemon_run_def)

lemma run_Cons: "daemon_run (e # es) s = daemon_run es (daemon_step e s)"
  by (simp add: daemon_run_def)

lemma run_snoc: "daemon_run (es @ [e]) s = daemon_step e (daemon_run es s)"
  by (simp add: daemon_run_def)

lemma exited_step: "exited s \<Longrightarrow> daemon_step e s = s"
  by (cases e) (auto simp: step_simps)

lemma exited_run: "exited s \<Longrightarrow> daemon_run es s = s"
  by (induction es) (simp_all add: run_Nil run_Cons exited_step)

lemma subscriber_panicked_step:
  "subscriber s = Panicked p \<Longrightarrow> subscriber (daemon_step e s) = Panicked p"
  by (cases e) (auto simp: step_simps split: option.splits sum.splits)

lemma subscriber_panicked_run:
  "subscriber s = Panicked p \<Longrightarrow> subscriber (daemon_run es s) = Panicked p"
  by (induction es arbitrary: s) (simp_all add: run_Nil run_Cons subscriber_panicked_step)

lemma PreRun_untouched:
  "sink (snd (PreRun env s)) = sink s"
  "lastValue (snd (PreRun env s)) = lastValue s"
  "subscriber (snd (PreRun env s)) = subscriber s"
  "publisher (snd (PreRun env s)) = publisher s"
  "main_routine (snd (PreRun env s)) = main_routine s"
  "exit_code (snd (PreRun env s)) = exit_code s"
  "file_opens (snd (PreRun env s)) = file_opens s"
  "file_closes (snd (PreRun env s)) = file_closes s"
  "log_adds (snd (PreRun env s)) = log_adds s"
  by (simp_all add: PreRun_def Set_def WriteConfig_def Let_def split: option.splits sum.splits)

lemma fetched_append: "fetched (es @ fs) = fetched es @ fetched fs"
  by (induction es) (auto split: event.splits sum.splits)

section \<open>The consumer\<close>

lemma consumer_step:
  "(sink (daemon_step e s) = sink s \<and>
      (lastValue (daemon_step e s) = lastValue s \<or>
       subscriber s = NotStarted \<and> lastValue (daemon_step e s) = None)) \<or>
   (\<exists>op. e = SubIter (Inr op) \<and> subscriber s = Running \<and> 0 < length op \<and>
         GetValue (op ! 0) \<noteq> lastValue s \<and> subscriber (daemon_step e s) = Running \<and>
         sink (daemon_step e s) = sink s @ [sink_line (GetValue (op ! 0))] \<and>
         lastValue (daemon_step e s) = GetValue (op ! 0))"
proof (cases e)
  case (SubIter r)
  then show ?thesis by (cases r) (auto simp: step_simps)
qed (auto simp: step_simps split: option.splits)

lemma not_started_step:
  "subscriber (daemon_step e s) = NotStarted \<Longrightarrow> subscriber s = NotStarted"
  by (cases e) (auto simp: step_simps split: option.splits sum.splits if_splits)

lemma consumer_invariant:
  assumes "subscriber s0 = NotStarted" and "sink s0 = []"
  shows "(subscriber (daemon_run es s0) = NotStarted \<longrightarrow> sink (daemon_run es s0) = []) \<and>
         (sink (daemon_run es s0) \<noteq> [] \<longrightarrow>
            last (sink (daemon_run es s0)) = sink_line (lastValue (daemon_run es s0)) \<and>
            lastValue (daemon_run es s0) \<in> set (fetched es) \<and>
            (\<exists>pre op post. es = pre @ SubIter (Inr op) # post \<and> 0 < length op \<and>
                GetValue (op ! 0) = lastValue (daemon_run es s0) \<and>
                sink (daemon_run pre s0) = butlast (sink (daemon_run es s0)) \<and>
                sink (daemon_run (pre @ [SubIter (Inr op)]) s0) = sink (daemon_run es s0)))"
proof (induction es rule: rev_induct)
  case Nil
  show ?case using assms by (simp add: run_Nil)
next
  case (snoc e es)
  define s' where "s' = daemon_run es s0"
  define s where "s = daemon_step e s'"
  have run: "daemon_run (es @ [e]) s0 = s" by (simp add: run_snoc s_def s'_def)
  note IH = snoc.IH [folded s'_def]
  from consumer_step [of e s', folded s_def]
  consider (same) "sink s = sink s' \<and>
      (lastValue s = lastValue s' \<or> subscriber s' = NotStarted \<and> lastValue s = None)"
    | (wrote) op where "e = SubIter (Inr op) \<and> subscriber s' = Running \<and> 0 < length op \<and>
      GetValue (op ! 0) \<noteq> lastValue s' \<and> subscriber s = Running \<and>
      sink s = sink s' @ [sink_line (GetValue (op ! 0))] \<and> lastValue s = GetValue (op ! 0)"
    by blast
  then show ?case
  proof cases
    case same0: same
    then have same: "sink s = sink s'"
      "lastValue s = lastValue s' \<or> subscriber s' = NotStarted \<and> lastValue s = None"
      by blast+
    have p1: "subscriber s = NotStarted \<longrightarrow> sink s = []"
      using IH same(1) not_started_step [of e s'] by (auto simp: s_def)
    have p2: "last (sink s) = sink_line (lastValue s) \<and> lastValue s \<in> set (fetched (es @ [e])) \<and>
        (\<exists>pre op post. es @ [e] = pre @ SubIter (Inr op) # post \<and> 0 < length op \<and>
            GetValue (op ! 0) = lastValue s \<and> sink (daemon_run pre s0) = butlast (sink s) \<and>
            sink (daemon_run (pre @ [SubIter (Inr op)]) s0) = sink s)"
      if ne: "sink s \<noteq> []"
    proof -
      have ne': "sink s' \<noteq> []" using ne same(1) by simp
      then have "subscriber s' \<noteq> NotStarted" using IH by blast
      then have lv: "lastValue s = lastValue s'" using same(2) by blast
      from IH ne' obtain pre op post where
        d: "es = pre @ SubIter (Inr op) # post" "0 < length op"
           "GetValue (op ! 0) = lastValue s'" "sink (daemon_run pre s0) = butlast (sink s')"
           "sink (daemon_run (pre @ [SubIter (Inr op)]) s0) = sink s'"
        by blast
      have "es @ [e] = pre @ SubIter (Inr op) # (post @ [e])" using d(1) by simp
      then have ex: "\<exists>pre op post. es @ [e] = pre @ SubIter (Inr op) # post \<and> 0 < length op \<and>
            GetValue (op ! 0) = lastValue s \<and> sink (daemon_run pre s0) = butlast (sink s) \<and>
            sink (daemon_run (pre @ [SubIter (Inr op)]) s0) = sink s"
        using d(2-5) lv same(1) by metis
      have "lastValue s \<in> set (fetched (es @ [e]))"
        using IH ne' lv by (simp add: fetched_append)
      moreover have "last (sink s) = sink_line (lastValue s)"
        using IH ne' lv same(1) by simp
      ultimately show ?thesis using ex by blast
    qed
    show ?thesis unfolding run using p1 p2 by blast
  next
    case write0: wrote
    then have wr: "e = SubIter (Inr op)" "subscriber s' = Running" "0 < length op"
      "GetValue (op ! 0) \<noteq> lastValue s'" "subscriber s = Running"
      "sink s = sink s' @ [sink_line (GetValue (op ! 0))]" "lastValue s = GetValue (op ! 0)"
      by blast+
    have "es @ [e] = es @ SubIter (Inr op) # []" using wr(1) by simp
    moreover have "sink (daemon_run es s0) = butlast (sink s)"
      using wr(6) by (simp add: s'_def)
    moreover have "sink (daemon_run (es @ [SubIter (Inr op)]) s0) = sink s"
      using run wr(1) by simp
    ultimately have ex: "\<exists>pre op post. es @ [e] = pre @ SubIter (Inr op) # post \<and> 0 < length op \<and>
            GetValue (op ! 0) = lastValue s \<and> sink (daemon_run pre s0) = butlast (sink s) \<and>
            sink (daemon_run (pre @ [SubIter (Inr op)]) s0) = sink s"
      using wr(3,7) by metis
    have "lastValue s \<in> set (fetched (es @ [e]))"
      using wr(1,3,7) by (simp add: fetched_append)
    moreover have "last (sink s) = sink_line (lastValue s)"
      using wr(6,7) by simp
    ultimately show ?thesis unfolding run using ex wr(5) by simp
  qed
qed

lemmas eval_simps =
  daemon_run_def step_simps exited_def PreRun_def good_setup_def boot_def Set_def
  WriteConfig_def sink_line_eq TrimRight_def trimRightByte_rev newline_def Let_def
  has_panicked_def string_of_def

section \<open>What one consumer poll does\<close>

text \<open>
  Claim C3, as the code has it. The comparison of a poll is \<^verbatim>\<open>reflect.DeepEqual\<close>: two values
  are equal when both are the nil slice or neither is, and their bytes are the same. A poll
  whose list is non-empty and whose newest value is not equal in that sense to \<open>lastValue\<close>
  issues one write on the log file, the value with every trailing newline byte removed
  followed by a single newline, and makes the raw value the new \<open>lastValue\<close>; the result
  of the stripping is the value minus a run of newlines and does not itself end in a
  newline. A poll whose list is empty, or whose newest value is equal in that sense to
  \<open>lastValue\<close>, changes neither the writes nor \<open>lastValue\<close>: only the count of \<^verbatim>\<open>List\<close>
  calls moves. The source assigns \<open>lastValue\<close> before it writes; within one pass nothing
  can observe the order.
\<close>

theorem subscribe_iter_poll:
  "DeepEqual a b = (((a = None) = (b = None)) \<and> string_of a = string_of b) \<and>
   (0 < length op \<and> \<not> DeepEqual (GetValue (op ! 0)) (lastValue s) \<longrightarrow>
      subscribe_iter (Inr op) s =
        (None, s\<lparr>list_calls := list_calls s + 1, lastValue := GetValue (op ! 0),
                  sink := sink s @ [TrimRight (string_of (GetValue (op ! 0))) newline @ [newline]]\<rparr>) \<and>
      (\<exists>k. string_of (GetValue (op ! 0)) =
            TrimRight (string_of (GetValue (op ! 0))) newline @ replicate k newline) \<and>
      (TrimRight (string_of (GetValue (op ! 0))) newline = [] \<or>
       last (TrimRight (string_of (GetValue (op ! 0))) newline) \<noteq> newline)) \<and>
   (length op = 0 \<or> DeepEqual (GetValue (op ! 0)) (lastValue s) \<longrightarrow>
      subscribe_iter (Inr op) s = (None, s\<lparr>list_calls := list_calls s + 1\<rparr>) \<and>
      sink (snd (subscribe_iter (Inr op) s)) = sink s \<and>
      lastValue (snd (subscribe_iter (Inr op) s)) = lastValue s)"
proof -
  have eq: "DeepEqual a b = (((a = None) = (b = None)) \<and> string_of a = string_of b)"
    by (cases a; cases b) (auto simp: DeepEqual_def len_def string_of_def)
  show ?thesis
    using eq trimRightByte_replicate [of "string_of (GetValue (op ! 0))" newline]
      trimRightByte_last [of "string_of (GetValue (op ! 0))" newline]
    by (auto simp: subscribe_iter_Inr sink_line_eq TrimRight_def DeepEqual_iff)
qed

theorem subscribe_iter_poll_witness:
  "0 < length [Operation (Some (''A'' @ [newline]))] \<and>
   \<not> DeepEqual (GetValue ([Operation (Some (''A'' @ [newline]))] ! 0)) (lastValue (boot Map.empty)) \<and>
   subscribe_iter (Inr [Operation (Some (''A'' @ [newline]))]) (boot Map.empty) =
     (None, (boot Map.empty)\<lparr>list_calls := 1, lastValue := Some (''A'' @ [newline]),
                              sink := [''A'' @ [newline]]\<rparr>) \<and>
   length ([] :: operation list) = 0 \<and>
   subscribe_iter (Inr []) (boot Map.empty) = (None, (boot Map.empty)\<lparr>list_calls := 1\<rparr>) \<and>
   DeepEqual (GetValue ([Operation None] ! 0)) (lastValue (boot Map.empty)) \<and>
   subscribe_iter (Inr [Operation None]) (boot Map.empty) =
     (None, (boot Map.empty)\<lparr>list_calls := 1\<rparr>)"
  using subscribe_iter_poll [where op = "[Operation (Some (''A'' @ [newline]))]"
      and s = "boot Map.empty" and a = None and b = None]
    subscribe_iter_poll [where op = "[]" and s = "boot Map.empty" and a = None and b = None]
    subscribe_iter_poll [where op = "[Operation None]" and s = "boot Map.empty"
      and a = None and b = None]
  by (simp add: boot_def TrimRight_def trimRightByte_rev newline_def string_of_def DeepEqual_iff)

text \<open>
  The claim as stated, with equality of bytes as its test, fails: once the empty non-nil
  value has been accepted, a newest value that is the nil slice has the same bytes as
  \<open>lastValue\<close>, and yet the poll writes an empty line and changes \<open>lastValue\<close>.
\<close>

theorem subscribe_iter_poll_counterexample:
  "lastValue (daemon_run [SubStart None, SubIter (Inr [Operation (Some [])])]
      (snd (PreRun (good_setup Map.empty ''addr'') (boot Map.empty)))) = Some [] \<and>
   string_of (GetValue ([Operation None] ! 0)) =
     string_of (lastValue (daemon_run [SubStart None, SubIter (Inr [Operation (Some [])])]
       (snd (PreRun (good_setup Map.empty ''addr'') (boot Map.empty))))) \<and>
   sink (snd (subscribe_iter (Inr [Operation None])
     (daemon_run [SubStart None, SubIter (Inr [Operation (Some [])])]
       (snd (PreRun (good_setup Map.empty ''addr'') (boot Map.empty)))))) =
     sink (daemon_run [SubStart None, SubIter (Inr [Operation (Some [])])]
       (snd (PreRun (good_setup Map.empty ''addr'') (boot Map.empty)))) @ [[newline]] \<and>
   lastValue (snd (subscribe_iter (Inr [Operation None])
     (daemon_run [SubStart None, SubIter (Inr [Operation (Some [])])]
       (snd (PreRun (good_setup Map.empty ''addr'') (boot Map.empty)))))) \<noteq>
     lastValue (daemon_run [SubStart None, SubIter (Inr [Operation (Some [])])]
       (snd (PreRun (good_setup Map.empty ''addr'') (boot Map.empty))))"
  by (simp add: eval_simps subscribe_iter_Inr)

section \<open>\<open>lastValue\<close> and the tail of the log file\<close>

text \<open>
  Claim C10. In every state the daemon reaches after a successful setup in which the log file
  has been written to, the last write is \<open>lastValue\<close> with its trailing newlines removed,
  followed by a newline, and \<open>lastValue\<close> is the raw newest value of the poll that
  issued that write: the run splits at a poll \<open>SubIter (Inr op)\<close> with \<open>op ! 0\<close> carrying
  \<open>lastValue\<close>, before which the file lacked exactly its last write and after which it
  did not change.
\<close>

theorem lastValue_matches_sink_tail:
  assumes "fst (PreRun env (boot disk)) = None"
    and "s = daemon_run es (snd (PreRun env (boot disk)))"
    and "sink s \<noteq> []"
  shows "last (sink s) = TrimRight (string_of (lastValue s)) newline @ [newline] \<and>
         (\<exists>pre op post. es = pre @ SubIter (Inr op) # post \<and> 0 < length op \<and>
             GetValue (op ! 0) = lastValue s \<and>
             sink (daemon_run pre (snd (PreRun env (boot disk)))) = butlast (sink s) \<and>
             sink (daemon_run (pre @ [SubIter (Inr op)]) (snd (PreRun env (boot disk)))) = sink s)"
proof -
  have "subscriber (snd (PreRun env (boot disk))) = NotStarted"
    and "sink (snd (PreRun env (boot disk))) = []"
    by (simp_all add: PreRun_untouched boot_def)
  from consumer_invariant [OF this, of es] assms(2,3) show ?thesis
    by (simp add: sink_line_eq)
qed

theorem lastValue_matches_sink_tail_witness:
  "fst (PreRun (good_setup Map.empty ''addr'') (boot Map.empty)) = None \<and>
   sink (daemon_run [SubStart None, SubIter (Inr [Operation (Some (''A'' @ [newline]))]),
                     SubIter (Inr [Operation (Some (''A'' @ [newline]))])]
           (snd (PreRun (good_setup Map.empty ''addr'') (boot Map.empty)))) \<noteq> [] \<and>
   last (sink (daemon_run [SubStart None, SubIter (Inr [Operation (Some (''A'' @ [newline]))]),
                     SubIter (Inr [Operation (Some (''A'' @ [newline]))])]
           (snd (PreRun (good_setup Map.empty ''addr'') (boot Map.empty))))) = ''A'' @ [newline] \<and>
   lastValue (daemon_run [SubStart None, SubIter (Inr [Operation (Some (''A'' @ [newline]))]),
                     SubIter (Inr [Operation (Some (''A'' @ [newline]))])]
           (snd (PreRun (good_setup Map.empty ''addr'') (boot Map.empty)))) = Some (''A'' @ [newline])"
  using lastValue_matches_sink_tail [of "good_setup Map.empty ''addr''" Map.empty _
      "[SubStart None, SubIter (Inr [Operation (Some (''A'' @ [newline]))]),
        SubIter (Inr [Operation (Some (''A'' @ [newline]))])]", OF _ refl]
  by (simp add: eval_simps)

section \<open>Adjacent entries of the log file\<close>

lemma accepted_values:
  assumes "subscriber s0 = NotStarted" and "sink s0 = []"
  shows "\<exists>vs. sink (daemon_run es s0) = map sink_line vs \<and> distinct_adj vs \<and>
              set vs \<subseteq> set (fetched es) \<and>
              (vs \<noteq> [] \<longrightarrow> last vs = lastValue (daemon_run es s0))"
proof (induction es rule: rev_induct)
  case Nil
  show ?case using assms by (simp add: run_Nil)
next
  case (snoc e es)
  define s' where "s' = daemon_run es s0"
  define s where "s = daemon_step e s'"
  have run: "daemon_run (es @ [e]) s0 = s" by (simp add: run_snoc s_def s'_def)
  from snoc.IH [folded s'_def] obtain vs where
    vs: "sink s' = map sink_line vs" "distinct_adj vs" "set vs \<subseteq> set (fetched es)"
        "vs \<noteq> [] \<longrightarrow> last vs = lastValue s'"
    by blast
  have inv: "subscriber s' = NotStarted \<longrightarrow> sink s' = []"
    using consumer_invariant [OF assms, of es] by (simp add: s'_def)
  from consumer_step [of e s', folded s_def]
  consider (same) "sink s = sink s' \<and>
      (lastValue s = lastValue s' \<or> subscriber s' = NotStarted \<and> lastValue s = None)"
    | (wrote) op where "e = SubIter (Inr op) \<and> subscriber s' = Running \<and> 0 < length op \<and>
      GetValue (op ! 0) \<noteq> lastValue s' \<and> subscriber s = Running \<and>
      sink s = sink s' @ [sink_line (GetValue (op ! 0))] \<and> lastValue s = GetValue (op ! 0)"
    by blast
  then show ?case
  proof cases
    case same
    have "vs \<noteq> [] \<longrightarrow> last vs = lastValue s"
      using same vs(1,4) inv by auto
    moreover have "set vs \<subseteq> set (fetched (es @ [e]))"
      using vs(3) by (auto simp: fetched_append)
    ultimately show ?thesis unfolding run using same vs(1,2) by metis
  next
    case wrote
    let ?v = "GetValue (op ! 0)"
    have "sink s = map sink_line (vs @ [?v])" using wrote vs(1) by simp
    moreover have "distinct_adj (vs @ [?v])"
      using wrote vs(2,4) by (auto simp: distinct_adj_append_iff)
    moreover have "set (vs @ [?v]) \<subseteq> set (fetched (es @ [e]))"
      using wrote vs(3) by (auto simp: fetched_append)
    moreover have "last (vs @ [?v]) = lastValue s" using wrote by simp
    ultimately show ?thesis unfolding run by blast
  qed
qed

lemma inj_on_sink_line:
  "inj_on (\<lambda>v. TrimRight (string_of v) newline) A \<Longrightarrow> inj_on sink_line A"
  by (auto simp: inj_on_def sink_line_eq)

text \<open>
  Claim C1, as the code has it. The consumer compares raw values but writes stripped ones, so
  the property holds of the values, not of the written bytes. In every state reached after a
  successful setup the writes on the log file are the stripped forms of a sequence of fetched
  values in which no two neighbours are equal; whenever stripping the trailing newlines is
  injective on the fetched values, no two neighbouring writes are byte-identical. For a
  non-empty list the write is suppressed exactly when the newest value equals \<open>lastValue\<close>,
  and a value that comes back after a different accepted value is written again.
\<close>

theorem sink_adjacent_entries:
  "(fst (PreRun env (boot disk)) = None \<longrightarrow>
      (\<exists>vs. sink (daemon_run es (snd (PreRun env (boot disk)))) =
               map (\<lambda>v. TrimRight (string_of v) newline @ [newline]) vs \<and>
            set vs \<subseteq> set (fetched es) \<and> distinct_adj vs) \<and>
      (inj_on (\<lambda>v. TrimRight (string_of v) newline) (set (fetched es)) \<longrightarrow>
         distinct_adj (sink (daemon_run es (snd (PreRun env (boot disk))))))) \<and>
   (0 < length op \<longrightarrow>
      (sink (snd (subscribe_iter (Inr op) s)) = sink s \<longleftrightarrow> GetValue (op ! 0) = lastValue s)) \<and>
   (b \<noteq> lastValue s \<longrightarrow>
      sink (snd (subscribe_iter (Inr [Operation (lastValue s)])
                  (snd (subscribe_iter (Inr [Operation b]) s)))) =
        sink s @ [TrimRight (string_of b) newline @ [newline],
                  TrimRight (string_of (lastValue s)) newline @ [newline]])"
proof -
  let ?s0 = "snd (PreRun env (boot disk))"
  have fresh: "subscriber ?s0 = NotStarted" "sink ?s0 = []"
    by (simp_all add: PreRun_untouched boot_def)
  from accepted_values [OF fresh, of es] obtain vs where
    vs: "sink (daemon_run es ?s0) = map sink_line vs" "distinct_adj vs"
        "set vs \<subseteq> set (fetched es)"
    by blast
  have sl: "sink_line = (\<lambda>v. TrimRight (string_of v) newline @ [newline])"
    by (rule ext) (simp add: sink_line_eq)
  have a: "\<exists>vs. sink (daemon_run es ?s0) =
               map (\<lambda>v. TrimRight (string_of v) newline @ [newline]) vs \<and>
            set vs \<subseteq> set (fetched es) \<and> distinct_adj vs"
    using vs unfolding sl by blast
  have b: "distinct_adj (sink (daemon_run es ?s0))"
    if "inj_on (\<lambda>v. TrimRight (string_of v) newline) (set (fetched es))"
  proof -
    have "inj_on sink_line (set vs)"
      by (rule inj_on_sink_line) (rule inj_on_subset [OF that vs(3)])
    then show ?thesis using vs(1,2) by (simp add: distinct_adj_mapI)
  qed
  have c: "0 < length op \<longrightarrow>
      (sink (snd (subscribe_iter (Inr op) s)) = sink s \<longleftrightarrow> GetValue (op ! 0) = lastValue s)"
    by (simp add: subscribe_iter_Inr)
  have d: "b \<noteq> lastValue s \<longrightarrow>
      sink (snd (subscribe_iter (Inr [Operation (lastValue s)])
                  (snd (subscribe_iter (Inr [Operation b]) s)))) =
        sink s @ [TrimRight (string_of b) newline @ [newline],
                  TrimRight (string_of (lastValue s)) newline @ [newline]]"
    by (auto simp: subscribe_iter_Inr sink_line_eq)
  show ?thesis using a b c d by blast
qed

theorem sink_adjacent_entries_witness:
  "fst (PreRun (good_setup Map.empty ''addr'') (boot Map.empty)) = None \<and>
   inj_on (\<lambda>v. TrimRight (string_of v) newline)
     (set (fetched [SubStart None, SubIter (Inr [Operation (Some ''A'')]),
                    SubIter (Inr [Operation (Some ''B'')]),
                    SubIter (Inr [Operation (Some ''A'')])])) \<and>
   distinct_adj (sink (daemon_run [SubStart None, SubIter (Inr [Operation (Some ''A'')]),
                    SubIter (Inr [Operation (Some ''B'')]),
                    SubIter (Inr [Operation (Some ''A'')])]
                  (snd (PreRun (good_setup Map.empty ''addr'') (boot Map.empty))))) \<and>
   0 < length [Operation (Some ''A'')] \<and>
   sink (snd (subscribe_iter (Inr [Operation (Some ''A'')]) (boot Map.empty))) \<noteq>
     sink (boot Map.empty) \<and>
   Some ''B'' \<noteq> lastValue (boot Map.empty) \<and>
   sink (snd (subscribe_iter (Inr [Operation (lastValue (boot Map.empty))])
               (snd (subscribe_iter (Inr [Operation (Some ''B'')]) (boot Map.empty))))) =
     [''B'' @ [newline], [newline]]"
  using sink_adjacent_entries [of "good_setup Map.empty ''addr''" Map.empty
      "[SubStart None, SubIter (Inr [Operation (Some ''A'')]),
        SubIter (Inr [Operation (Some ''B'')]), SubIter (Inr [Operation (Some ''A'')])]"
      "[Operation (Some ''A'')]" "boot Map.empty" "Some ''B''"]
  by (simp add: eval_simps subscribe_iter_Inr inj_on_def)

text \<open>
  The claim as stated fails: the values \<open>A\<close> and \<open>A\<close> followed by a newline differ, so both
  are accepted, and both are written as the same bytes.
\<close>

theorem sink_adjacent_duplicate_counterexample:
  "sink (daemon_run [SubStart None, SubIter (Inr [Operation (Some ''A'')]),
                     SubIter (Inr [Operation (Some (''A'' @ [newline]))])]
          (snd (PreRun (good_setup Map.empty ''addr'') (boot Map.empty)))) =
     [''A'' @ [newline], ''A'' @ [newline]] \<and>
   \<not> distinct_adj (sink (daemon_run [SubStart None, SubIter (Inr [Operation (Some ''A'')]),
                     SubIter (Inr [Operation (Some (''A'' @ [newline]))])]
          (snd (PreRun (good_setup Map.empty ''addr'') (boot Map.empty)))))"
  by (simp add: eval_simps)

section \<open>The log file as the collapse of the produced entries\<close>

lemma running_step_back:
  "subscriber s = Running \<Longrightarrow> subscriber (daemon_step e s) = Running \<or>
     (\<exists>p. subscriber (daemon_step e s) = Panicked p)"
  by (cases e) (auto simp: step_simps split: option.splits sum.splits)

lemma map_remdups_adj_Cons:
  "map f (remdups_adj (x # xs)) = f x # map f (tl (remdups_adj (x # xs)))"
  by (metis list.simps(9) remdups_adj_Cons_alt)

lemma live_consumer_run:
  assumes "subscriber s0 = Running"
    and "subscriber (daemon_run es s0) = Running"
    and "\<not> exited (daemon_run es s0)"
  shows "sink (daemon_run es s0) =
           sink s0 @ map sink_line (tl (remdups_adj (lastValue s0 # fetched es))) \<and>
         lastValue (daemon_run es s0) = last (lastValue s0 # fetched es)"
  using assms
proof (induction es arbitrary: s0)
  case Nil
  then show ?case by (simp add: run_Nil)
next
  case (Cons e es)
  let ?s1 = "daemon_step e s0"
  have fin: "subscriber (daemon_run es ?s1) = Running" "\<not> exited (daemon_run es ?s1)"
    using Cons.prems by (simp_all add: run_Cons)
  have live0: "\<not> exited s0"
    using Cons.prems(3) exited_run [of s0 "e # es"] by auto
  have live1: "subscriber ?s1 = Running"
    using running_step_back [OF Cons.prems(1), of e] fin(1)
      subscriber_panicked_run [of ?s1 _ es] by auto
  note IH = Cons.IH [OF live1 fin]
  show ?case
  proof (cases e)
    case (SubIter r)
    show ?thesis
    proof (cases r)
      case (Inl x)
      then have False using live1 SubIter live0 Cons.prems(1) by (simp add: step_simps)
      then show ?thesis ..
    next
      case (Inr op)
      show ?thesis
        using IH SubIter Inr live0 Cons.prems(1)
        by (auto simp: step_simps run_Cons map_remdups_adj_Cons)
    qed
  qed (use IH Cons.prems(1) in \<open>auto simp: step_simps run_Cons split: option.splits\<close>)
qed

lemma remdups_adj_replicate_same:
  "remdups_adj (x # replicate n x @ r) = remdups_adj (x # r)"
  by (induction n) simp_all

lemma remdups_adj_observed:
  "length ks = length Es \<Longrightarrow> remdups_adj (x # observed Es ks) = remdups_adj (x # Es)"
proof (induction Es arbitrary: ks x)
  case Nil
  then show ?case by (simp add: observed_def)
next
  case (Cons E Es)
  then obtain k ks' where ks: "ks = k # ks'" "length ks' = length Es"
    by (cases ks) auto
  have obs: "observed (E # Es) ks = E # replicate k E @ observed Es ks'"
    by (simp add: observed_def ks)
  have "remdups_adj (E # replicate k E @ observed Es ks') = remdups_adj (E # Es)"
    using Cons.IH [OF ks(2), of E] by (simp add: remdups_adj_replicate_same)
  then show ?case unfolding obs by simp
qed

text \<open>
  Claim C2, as the code has it. Let the consumer be polling in \<open>s0\<close> and still be polling,
  the process alive, after the events \<open>es\<close>, and let the newest values its polls fetched be
  the produced entries, the \<open>i\<close>-th one seen on \<open>ks ! i + 1\<close> consecutive polls. Then the
  writes added to the log file are the entries of the collapse of \<open>lastValue s0\<close> followed by
  the produced entries, without its head, each with its trailing newlines removed and one
  newline appended. For a consumer that has just started \<open>lastValue s0\<close> is the nil slice:
  a first entry whose value is nil is not written.
\<close>

theorem sink_is_collapse_of_entries:
  assumes "subscriber s0 = Running"
    and "subscriber (daemon_run es s0) = Running"
    and "\<not> exited (daemon_run es s0)"
    and "length ks = length entries"
    and "fetched es = observed entries ks"
  shows "sink (daemon_run es s0) =
           sink s0 @ map (\<lambda>v. TrimRight (string_of v) newline @ [newline])
                       (tl (remdups_adj (lastValue s0 # entries)))"
proof -
  have sl: "sink_line = (\<lambda>v. TrimRight (string_of v) newline @ [newline])"
    by (rule ext) (simp add: sink_line_eq)
  show ?thesis
    using live_consumer_run [OF assms(1-3)] remdups_adj_observed [OF assms(4), of "lastValue s0"]
    by (simp add: assms(5) sl)
qed


theorem sink_is_collapse_of_entries_witness:
  "subscriber (daemon_step (SubStart None)
      (snd (PreRun (good_setup Map.empty ''addr'') (boot Map.empty)))) = Running \<and>
   subscriber (daemon_run
      [SubIter (Inr []), SubIter (Inr [Operation (Some ''A'')]), PubStart 1700000000,
       SubIter (Inr [Operation (Some ''A''), Operation (Some ''A'')]),
       SubIter (Inr [Operation (Some ''A''), Operation (Some ''A'')]),
       SubIter (Inr [Operation (Some ''B''), Operation (Some ''A''), Operation (Some ''A'')]),
       SubIter (Inr [Operation (Some ''A''), Operation (Some ''B''), Operation (Some ''A''),
                     Operation (Some ''A'')])]
      (daemon_step (SubStart None)
         (snd (PreRun (good_setup Map.empty ''addr'') (boot Map.empty))))) = Running \<and>
   \<not> exited (daemon_run
      [SubIter (Inr []), SubIter (Inr [Operation (Some ''A'')]), PubStart 1700000000,
       SubIter (Inr [Operation (Some ''A''), Operation (Some ''A'')]),
       SubIter (Inr [Operation (Some ''A''), Operation (Some ''A'')]),
       SubIter (Inr [Operation (Some ''B''), Operation (Some ''A''), Operation (Some ''A'')]),
       SubIter (Inr [Operation (Some ''A''), Operation (Some ''B''), Operation (Some ''A''),
                     Operation (Some ''A'')])]
      (daemon_step (SubStart None)
         (snd (PreRun (good_setup Map.empty ''addr'') (boot Map.empty))))) \<and>
   length [0, 1, 0, 0 :: nat] = length [Some ''A'', Some ''A'', Some ''B'', Some ''A''] \<and>
   fetched
      [SubIter (Inr []), SubIter (Inr [Operation (Some ''A'')]), PubStart 1700000000,
       SubIter (Inr [Operation (Some ''A''), Operation (Some ''A'')]),
       SubIter (Inr [Operation (Some ''A''), Operation (Some ''A'')]),
       SubIter (Inr [Operation (Some ''B''), Operation (Some ''A''), Operation (Some ''A'')]),
       SubIter (Inr [Operation (Some ''A''), Operation (Some ''B''), Operation (Some ''A''),
                     Operation (Some ''A'')])] =
     observed [Some ''A'', Some ''A'', Some ''B'', Some ''A''] [0, 1, 0, 0] \<and>
   sink (daemon_run
      [SubIter (Inr []), SubIter (Inr [Operation (Some ''A'')]), PubStart 1700000000,
       SubIter (Inr [Operation (Some ''A''), Operation (Some ''A'')]),
       SubIter (Inr [Operation (Some ''A''), Operation (Some ''A'')]),
       SubIter (Inr [Operation (Some ''B''), Operation (Some ''A''), Operation (Some ''A'')]),
       SubIter (Inr [Operation (Some ''A''), Operation (Some ''B''), Operation (Some ''A''),
                     Operation (Some ''A'')])]
      (daemon_step (SubStart None)
         (snd (PreRun (good_setup Map.empty ''addr'') (boot Map.empty))))) =
     [''A'' @ [newline], ''B'' @ [newline], ''A'' @ [newline]]"
  using sink_is_collapse_of_entries [of
      "daemon_step (SubStart None) (snd (PreRun (good_setup Map.empty ''addr'') (boot Map.empty)))"
      "[SubIter (Inr []), SubIter (Inr [Operation (Some ''A'')]), PubStart 1700000000,
        SubIter (Inr [Operation (Some ''A''), Operation (Some ''A'')]),
        SubIter (Inr [Operation (Some ''A''), Operation (Some ''A'')]),
        SubIter (Inr [Operation (Some ''B''), Operation (Some ''A''), Operation (Some ''A'')]),
        SubIter (Inr [Operation (Some ''A''), Operation (Some ''B''), Operation (Some ''A''),
                      Operation (Some ''A'')])]"
      "[0, 1, 0, 0]" "[Some ''A'', Some ''A'', Some ''B'', Some ''A'']"]
  by (simp add: eval_simps observed_def)

text \<open>
  The claim as stated fails for a log whose only entry has the nil value: the collapse has
  one element, the log file stays empty.
\<close>

theorem sink_is_collapse_counterexample:
  "subscriber (daemon_run [SubStart None, SubIter (Inr [Operation None])]
      (snd (PreRun (good_setup Map.empty ''addr'') (boot Map.empty)))) = Running \<and>
   \<not> exited (daemon_run [SubStart None, SubIter (Inr [Operation None])]
      (snd (PreRun (good_setup Map.empty ''addr'') (boot Map.empty)))) \<and>
   fetched [SubStart None, SubIter (Inr [Operation None])] = observed [None] [0] \<and>
   sink (daemon_run [SubStart None, SubIter (Inr [Operation None])]
      (snd (PreRun (good_setup Map.empty ''addr'') (boot Map.empty)))) = [] \<and>
   map (\<lambda>v. TrimRight (string_of v) newline @ [newline]) (remdups_adj [None]) = [[newline]] \<and>
   sink (daemon_run [SubStart None, SubIter (Inr [Operation None])]
      (snd (PreRun (good_setup Map.empty ''addr'') (boot Map.empty)))) \<noteq>
     map (\<lambda>v. TrimRight (string_of v) newline @ [newline]) (remdups_adj [None])"
  by (simp add: eval_simps observed_def)

section \<open>The reading buffer after a producer pass\<close>

text \<open>
  Claim C4, as the code has it. A pass of the producer loop runs to its end exactly when the
  interval has not elapsed or \<^verbatim>\<open>logStore.Add\<close> succeeds, and then \<open>logbuf\<close> is empty. When
  \<^verbatim>\<open>Add\<close> fails the pass panics before \<^verbatim>\<open>logbuf.Reset()\<close>: the buffer keeps what it held
  and what the logger wrote.
\<close>

theorem reading_buffer_reset:
  "(fst (publish_iter t ev r s) = None) = (\<not> word_sle 30 (t - lastTriggerTime s) \<or> r = None) \<and>
   (fst (publish_iter t ev r s) = None \<longrightarrow> logbuf (snd (publish_iter t ev r s)) = []) \<and>
   (fst (publish_iter t ev r s) \<noteq> None \<longrightarrow>
      (\<exists>e. r = Some e \<and> fst (publish_iter t ev r s) = Some (AppendFailed e)) \<and>
      logbuf (snd (publish_iter t ev r s)) = logbuf s @ ev)"
  by (cases r) (simp_all add: publish_iter_cases)

theorem reading_buffer_reset_witness:
  "fst (publish_iter 1700000030 ''whisper'' None
         (daemon_step (PubStart 1700000000) (snd (PreRun (good_setup Map.empty ''addr'') (boot Map.empty)))))
     = None \<and>
   logbuf (snd (publish_iter 1700000030 ''whisper'' None
         (daemon_step (PubStart 1700000000) (snd (PreRun (good_setup Map.empty ''addr'') (boot Map.empty))))))
     = [] \<and>
   fst (publish_iter 1700000030 ''whisper'' (Some ''store closed'')
         (daemon_step (PubStart 1700000000) (snd (PreRun (good_setup Map.empty ''addr'') (boot Map.empty)))))
     \<noteq> None \<and>
   logbuf (snd (publish_iter 1700000030 ''whisper'' (Some ''store closed'')
         (daemon_step (PubStart 1700000000) (snd (PreRun (good_setup Map.empty ''addr'') (boot Map.empty))))))
     = ''whisper''"
  using reading_buffer_reset [of 1700000030 "''whisper''" None
      "daemon_step (PubStart 1700000000) (snd (PreRun (good_setup Map.empty ''addr'') (boot Map.empty)))"]
    reading_buffer_reset [of 1700000030 "''whisper''" "Some ''store closed''"
      "daemon_step (PubStart 1700000000) (snd (PreRun (good_setup Map.empty ''addr'') (boot Map.empty)))"]
  by (simp add: eval_simps)

text \<open>
  The claim as stated fails on the failure branch: the buffer is not empty after a pass
  whose append failed.
\<close>

theorem reading_buffer_after_failed_append_counterexample:
  "fst (publish_iter 1700000030 ''whisper'' (Some ''store closed'')
         (daemon_step (PubStart 1700000000) (snd (PreRun (good_setup Map.empty ''addr'') (boot Map.empty)))))
     = Some (AppendFailed ''store closed'') \<and>
   logbuf (snd (publish_iter 1700000030 ''whisper'' (Some ''store closed'')
         (daemon_step (PubStart 1700000000) (snd (PreRun (good_setup Map.empty ''addr'') (boot Map.empty))))))
     \<noteq> []"
  by (simp add: eval_simps publish_iter_cases)

section \<open>The unguarded index of the combined loop\<close>

text \<open>
  Claim C9. In the combined-loop variant, after an append that succeeded and a \<^verbatim>\<open>List\<close> that
  returned no error, the pass panics with index 0 out of range exactly when the list is
  empty; for a non-empty list it echoes the newest value and goes on. The access is safe
  only under the precondition that such a list is never empty.
\<close>

theorem combined_iter_index:
  "add_err = None \<and> list_result = Inr op \<longrightarrow>
     (fst (combined_iter now add_err list_result s) = Some (IndexOutOfRange 0 (length op)))
       = (length op = 0) \<and>
     (0 < length op \<longrightarrow>
        combined_iter now add_err list_result s =
          (None, s\<lparr>log_adds := log_adds s @ [GetString ''name'' s @ '' '' @ now],
                    list_calls := list_calls s + 1,
                    stdout := stdout s @ [string_of (GetValue (op ! 0)) @ [newline]]\<rparr>))"
  by (simp add: combined_iter_def Let_def Sprintln_def)

theorem combined_iter_index_witness:
  "fst (combined_iter ''2023-05-01'' None (Inr []) (boot Map.empty)) = Some (IndexOutOfRange 0 0) \<and>
   fst (combined_iter ''2023-05-01'' None (Inr [Operation (Some ''n 2023-05-01'')])
          (boot Map.empty)) = None \<and>
   stdout (snd (combined_iter ''2023-05-01'' None (Inr [Operation (Some ''n 2023-05-01'')])
          (boot Map.empty))) = [''n 2023-05-01'' @ [newline]]"
  using combined_iter_index [of None "Inr []" "[]" "''2023-05-01''" "boot Map.empty"]
    combined_iter_index [of None "Inr [Operation (Some ''n 2023-05-01'')]"
      "[Operation (Some ''n 2023-05-01'')]" "''2023-05-01''" "boot Map.empty"]
  by (simp add: boot_def string_of_def)

section \<open>Errors of the log store are fatal\<close>

lemma publisher_dead_step:
  "publisher s = Panicked p \<Longrightarrow>
     log_adds (daemon_step e s) = log_adds s \<and> publisher (daemon_step e s) = Panicked p"
  by (cases e) (auto simp: step_simps split: option.splits sum.splits)

lemma publisher_dead_run:
  "publisher s = Panicked p \<Longrightarrow>
     log_adds (daemon_run es s) = log_adds s \<and> publisher (daemon_run es s) = Panicked p"
  by (induction es arbitrary: s) (simp_all add: run_Nil run_Cons publisher_dead_step)

lemma subscriber_dead_step:
  "subscriber s = Panicked p \<Longrightarrow>
     sink (daemon_step e s) = sink s \<and> list_calls (daemon_step e s) = list_calls s \<and>
     subscriber (daemon_step e s) = Panicked p"
  by (cases e) (auto simp: step_simps split: option.splits sum.splits)

lemma subscriber_dead_run:
  "subscriber s = Panicked p \<Longrightarrow>
     sink (daemon_run es s) = sink s \<and> list_calls (daemon_run es s) = list_calls s \<and>
     subscriber (daemon_run es s) = Panicked p"
  by (induction es arbitrary: s) (simp_all add: run_Nil run_Cons subscriber_dead_step)

lemma crash_enabled:
  "(\<exists>p. publisher s = Panicked p) \<or> (\<exists>p. subscriber s = Panicked p) \<Longrightarrow> \<not> exited s \<Longrightarrow>
     exit_code (daemon_step ExitPanic s) = Some 2"
  by (auto simp: step_simps has_panicked_def)

text \<open>
  Claim C5. When \<^verbatim>\<open>logStore.Add\<close> fails in a producer pass, or \<^verbatim>\<open>logStore.List\<close> fails in a
  consumer pass, the loop's deferred \<^verbatim>\<open>cancel\<close> has run and the goroutine has panicked; the
  failing call was made once; whatever happens afterwards (\<open>es\<close>), that loop makes no
  further \<^verbatim>\<open>Add\<close> call (producer) and no further \<^verbatim>\<open>List\<close> call or write (consumer) and
  stays panicked; and as long as the process has not ended, the runtime's crash step ends
  it with status 2.
\<close>

theorem fatal_errors_stop_loop:
  "(\<not> exited s \<and> publisher s = Running \<and> word_sle 30 (t - lastTriggerTime s) \<longrightarrow>
      ctx_done (daemon_step (PubIter t ev (Some e)) s) \<and>
      publisher (daemon_step (PubIter t ev (Some e)) s) = Panicked (AppendFailed e) \<and>
      log_adds (daemon_step (PubIter t ev (Some e)) s) = log_adds s @ [logbuf s @ ev] \<and>
      publisher (daemon_run es (daemon_step (PubIter t ev (Some e)) s))
        = Panicked (AppendFailed e) \<and>
      log_adds (daemon_run es (daemon_step (PubIter t ev (Some e)) s))
        = log_adds s @ [logbuf s @ ev] \<and>
      (\<not> exited (daemon_run es (daemon_step (PubIter t ev (Some e)) s)) \<longrightarrow>
         exit_code (daemon_step ExitPanic
           (daemon_run es (daemon_step (PubIter t ev (Some e)) s))) = Some 2)) \<and>
   (\<not> exited s \<and> subscriber s = Running \<longrightarrow>
      ctx_done (daemon_step (SubIter (Inl e)) s) \<and>
      subscriber (daemon_step (SubIter (Inl e)) s) = Panicked (ListFailed e) \<and>
      list_calls (daemon_step (SubIter (Inl e)) s) = list_calls s + 1 \<and>
      sink (daemon_step (SubIter (Inl e)) s) = sink s \<and>
      subscriber (daemon_run es (daemon_step (SubIter (Inl e)) s)) = Panicked (ListFailed e) \<and>
      list_calls (daemon_run es (daemon_step (SubIter (Inl e)) s)) = list_calls s + 1 \<and>
      sink (daemon_run es (daemon_step (SubIter (Inl e)) s)) = sink s \<and>
      (\<not> exited (daemon_run es (daemon_step (SubIter (Inl e)) s)) \<longrightarrow>
         exit_code (daemon_step ExitPanic
           (daemon_run es (daemon_step (SubIter (Inl e)) s))) = Some 2))"
proof (intro conjI impI)
  let ?s' = "daemon_step (PubIter t ev (Some e)) s"
  assume live: "\<not> exited s \<and> publisher s = Running \<and> word_sle 30 (t - lastTriggerTime s)"
  then have s': "ctx_done ?s'" "publisher ?s' = Panicked (AppendFailed e)"
    "log_adds ?s' = log_adds s @ [logbuf s @ ev]"
    by (simp_all add: step_simps)
  from s' show "ctx_done ?s'" "publisher ?s' = Panicked (AppendFailed e)"
    "log_adds ?s' = log_adds s @ [logbuf s @ ev]"
    by blast+
  from publisher_dead_run [OF s'(2), of es] s'(3)
  show run: "publisher (daemon_run es ?s') = Panicked (AppendFailed e)"
    "log_adds (daemon_run es ?s') = log_adds s @ [logbuf s @ ev]"
    by simp_all
  assume "\<not> exited (daemon_run es ?s')"
  with run(1) show "exit_code (daemon_step ExitPanic (daemon_run es ?s')) = Some 2"
    by (simp add: crash_enabled)
next
  let ?s' = "daemon_step (SubIter (Inl e)) s"
  assume live: "\<not> exited s \<and> subscriber s = Running"
  then have s': "ctx_done ?s'" "subscriber ?s' = Panicked (ListFailed e)"
    "list_calls ?s' = list_calls s + 1" "sink ?s' = sink s"
    by (simp_all add: step_simps)
  from s' show "ctx_done ?s'" "subscriber ?s' = Panicked (ListFailed e)"
    "list_calls ?s' = list_calls s + 1" "sink ?s' = sink s"
    by blast+
  from subscriber_dead_run [OF s'(2), of es] s'(3,4)
  show run: "subscriber (daemon_run es ?s') = Panicked (ListFailed e)"
    "list_calls (daemon_run es ?s') = list_calls s + 1"
    "sink (daemon_run es ?s') = sink s"
    by simp_all
  assume "\<not> exited (daemon_run es ?s')"
  with run(1) show "exit_code (daemon_step ExitPanic (daemon_run es ?s')) = Some 2"
    by (simp add: crash_enabled)
qed

theorem fatal_errors_stop_loop_witness:
  "\<not> exited (daemon_run [PubStart 1700000000, SubStart None]
        (snd (PreRun (good_setup Map.empty ''addr'') (boot Map.empty)))) \<and>
   publisher (daemon_run [PubStart 1700000000, SubStart None]
        (snd (PreRun (good_setup Map.empty ''addr'') (boot Map.empty)))) = Running \<and>
   subscriber (daemon_run [PubStart 1700000000, SubStart None]
        (snd (PreRun (good_setup Map.empty ''addr'') (boot Map.empty)))) = Running \<and>
   word_sle 30 (1700000030 - lastTriggerTime (daemon_run [PubStart 1700000000, SubStart None]
        (snd (PreRun (good_setup Map.empty ''addr'') (boot Map.empty))))) \<and>
   log_adds (daemon_run [PubIter 1700000060 ''again'' None, SubIter (Inr [Operation (Some ''A'')])]
      (daemon_step (PubIter 1700000030 ''whisper'' (Some ''store closed''))
        (daemon_run [PubStart 1700000000, SubStart None]
          (snd (PreRun (good_setup Map.empty ''addr'') (boot Map.empty)))))) = [''whisper''] \<and>
   exit_code (daemon_step ExitPanic
     (daemon_run [PubIter 1700000060 ''again'' None, SubIter (Inr [Operation (Some ''A'')])]
      (daemon_step (PubIter 1700000030 ''whisper'' (Some ''store closed''))
        (daemon_run [PubStart 1700000000, SubStart None]
          (snd (PreRun (good_setup Map.empty ''addr'') (boot Map.empty))))))) = Some 2 \<and>
   sink (daemon_run [SubIter (Inr [Operation (Some ''A'')]), PubIter 1700000030 ''whisper'' None]
      (daemon_step (SubIter (Inl ''store closed''))
        (daemon_run [PubStart 1700000000, SubStart None]
          (snd (PreRun (good_setup Map.empty ''addr'') (boot Map.empty)))))) = [] \<and>
   list_calls (daemon_run [SubIter (Inr [Operation (Some ''A'')]), PubIter 1700000030 ''whisper'' None]
      (daemon_step (SubIter (Inl ''store closed''))
        (daemon_run [PubStart 1700000000, SubStart None]
          (snd (PreRun (good_setup Map.empty ''addr'') (boot Map.empty)))))) = 1"
  using fatal_errors_stop_loop [of
      "daemon_run [PubStart 1700000000, SubStart None]
        (snd (PreRun (good_setup Map.empty ''addr'') (boot Map.empty)))"
      1700000030 "''whisper''" "''store closed''"
      "[PubIter 1700000060 ''again'' None, SubIter (Inr [Operation (Some ''A'')])]"]
    fatal_errors_stop_loop [of
      "daemon_run [PubStart 1700000000, SubStart None]
        (snd (PreRun (good_setup Map.empty ''addr'') (boot Map.empty)))"
      1700000030 "''whisper''" "''store closed''"
      "[SubIter (Inr [Operation (Some ''A'')]), PubIter 1700000030 ''whisper'' None]"]
  by (simp add: eval_simps)

section \<open>Cancellation and the effects of the loops\<close>

lemma PreRun_ok_ctx: "fst (PreRun env s) = None \<Longrightarrow> \<not> ctx_done (snd (PreRun env s))"
  by (auto simp: PreRun_def Set_def WriteConfig_def Let_def split: option.splits sum.splits)

lemma cancelled_by_panic_step:
  assumes "ctx_done s \<longrightarrow> (\<exists>q. publisher s = Panicked q) \<or> (\<exists>q. subscriber s = Panicked q)"
  shows "ctx_done (daemon_step e s) \<longrightarrow>
           (\<exists>q. publisher (daemon_step e s) = Panicked q) \<or>
           (\<exists>q. subscriber (daemon_step e s) = Panicked q)"
  using assms by (cases e) (auto simp: step_simps split: option.splits sum.splits)

lemma cancelled_by_panic_run:
  assumes "ctx_done s \<longrightarrow> (\<exists>q. publisher s = Panicked q) \<or> (\<exists>q. subscriber s = Panicked q)"
  shows "ctx_done (daemon_run es s) \<longrightarrow>
           (\<exists>q. publisher (daemon_run es s) = Panicked q) \<or>
           (\<exists>q. subscriber (daemon_run es s) = Panicked q)"
  using assms
proof (induction es arbitrary: s)
  case Nil
  then show ?case by (simp add: run_Nil)
next
  case (Cons e es)
  show ?case
    unfolding run_Cons by (rule Cons.IH) (rule cancelled_by_panic_step [OF Cons.prems])
qed

lemma effects_ignore_ctx:
  "sink (daemon_step e (s\<lparr>ctx_done := c\<rparr>)) = sink (daemon_step e s) \<and>
   log_adds (daemon_step e (s\<lparr>ctx_done := c\<rparr>)) = log_adds (daemon_step e s)"
  by (cases e) (auto simp: step_simps exited_def has_panicked_def split: option.splits sum.splits)

text \<open>
  Claim C6, as the code has it. Neither loop reads the cancellation: what a step appends or
  writes is the same whether or not the context is done. The interrupt does not cancel the
  context, and after a successful setup the context is done only if a loop has panicked.
  What ends the effects is the end of the goroutine or of the process: a producer that has
  panicked appends nothing more, a consumer that has panicked writes nothing more, and once
  the process has exited nothing is appended or written.
\<close>

theorem effects_end_with_termination:
  "(exited s \<longrightarrow> log_adds (daemon_run es s) = log_adds s \<and> sink (daemon_run es s) = sink s) \<and>
   (publisher s = Panicked p \<longrightarrow> log_adds (daemon_run es s) = log_adds s) \<and>
   (subscriber s = Panicked p \<longrightarrow> sink (daemon_run es s) = sink s) \<and>
   ctx_done (daemon_step Sigint s) = ctx_done s \<and>
   sink (daemon_step e (s\<lparr>ctx_done := True\<rparr>)) = sink (daemon_step e s) \<and>
   log_adds (daemon_step e (s\<lparr>ctx_done := True\<rparr>)) = log_adds (daemon_step e s) \<and>
   (fst (PreRun env (boot disk)) = None \<and>
    ctx_done (daemon_run es (snd (PreRun env (boot disk)))) \<longrightarrow>
      (\<exists>q. publisher (daemon_run es (snd (PreRun env (boot disk)))) = Panicked q) \<or>
      (\<exists>q. subscriber (daemon_run es (snd (PreRun env (boot disk)))) = Panicked q))"
proof -
  have a: "exited s \<longrightarrow> log_adds (daemon_run es s) = log_adds s \<and> sink (daemon_run es s) = sink s"
    by (simp add: exited_run)
  have b: "publisher s = Panicked p \<longrightarrow> log_adds (daemon_run es s) = log_adds s"
    by (simp add: publisher_dead_run)
  have c: "subscriber s = Panicked p \<longrightarrow> sink (daemon_run es s) = sink s"
    by (simp add: subscriber_dead_run)
  have d: "ctx_done (daemon_step Sigint s) = ctx_done s"
    by (simp add: step_simps)
  have f: "fst (PreRun env (boot disk)) = None \<and>
    ctx_done (daemon_run es (snd (PreRun env (boot disk)))) \<longrightarrow>
      (\<exists>q. publisher (daemon_run es (snd (PreRun env (boot disk)))) = Panicked q) \<or>
      (\<exists>q. subscriber (daemon_run es (snd (PreRun env (boot disk)))) = Panicked q)"
    using cancelled_by_panic_run [of "snd (PreRun env (boot disk))" es] PreRun_ok_ctx [of env "boot disk"]
    by blast
  show ?thesis using a b c d f effects_ignore_ctx [where e = e and s = s and c = True] by blast
qed

theorem effects_end_with_termination_witness:
  "exited (daemon_run [PubStart 1700000000, SubStart None, Sigint, ExitMain]
      (snd (PreRun (good_setup Map.empty ''addr'') (boot Map.empty)))) \<and>
   sink (daemon_run [SubIter (Inr [Operation (Some ''A'')]), PubIter 1700000030 ''whisper'' None]
      (daemon_run [PubStart 1700000000, SubStart None, Sigint, ExitMain]
        (snd (PreRun (good_setup Map.empty ''addr'') (boot Map.empty))))) = [] \<and>
   log_adds (daemon_run [SubIter (Inr [Operation (Some ''A'')]), PubIter 1700000030 ''whisper'' None]
      (daemon_run [PubStart 1700000000, SubStart None, Sigint, ExitMain]
        (snd (PreRun (good_setup Map.empty ''addr'') (boot Map.empty))))) = [] \<and>
   fst (PreRun (good_setup Map.empty ''addr'') (boot Map.empty)) = None \<and>
   ctx_done (daemon_run [PubStart 1700000000, SubStart None, SubIter (Inl ''store closed'')]
      (snd (PreRun (good_setup Map.empty ''addr'') (boot Map.empty)))) \<and>
   subscriber (daemon_run [PubStart 1700000000, SubStart None, SubIter (Inl ''store closed'')]
      (snd (PreRun (good_setup Map.empty ''addr'') (boot Map.empty))))
     = Panicked (ListFailed ''store closed'') \<and>
   sink (daemon_run [SubIter (Inr [Operation (Some ''A'')])]
      (daemon_run [PubStart 1700000000, SubStart None, SubIter (Inl ''store closed'')]
        (snd (PreRun (good_setup Map.empty ''addr'') (boot Map.empty))))) = [] \<and>
   publisher (daemon_run [PubStart 1700000000, SubStart None, PubIter 1700000030 ''whisper'' (Some ''store closed'')]
      (snd (PreRun (good_setup Map.empty ''addr'') (boot Map.empty))))
     = Panicked (AppendFailed ''store closed'') \<and>
   log_adds (daemon_run [PubIter 1700000060 ''again'' None]
      (daemon_run [PubStart 1700000000, SubStart None, PubIter 1700000030 ''whisper'' (Some ''store closed'')]
        (snd (PreRun (good_setup Map.empty ''addr'') (boot Map.empty))))) = [''whisper'']"
  using effects_end_with_termination [of
      "daemon_run [PubStart 1700000000, SubStart None, Sigint, ExitMain]
        (snd (PreRun (good_setup Map.empty ''addr'') (boot Map.empty)))"
      "[SubIter (Inr [Operation (Some ''A'')]), PubIter 1700000030 ''whisper'' None]"
      "ListFailed ''store closed''" Sigint "good_setup Map.empty ''addr''" Map.empty]
    effects_end_with_termination [of
      "daemon_run [PubStart 1700000000, SubStart None, SubIter (Inl ''store closed'')]
        (snd (PreRun (good_setup Map.empty ''addr'') (boot Map.empty)))"
      "[SubIter (Inr [Operation (Some ''A'')])]"
      "ListFailed ''store closed''" Sigint "good_setup Map.empty ''addr''" Map.empty]
    effects_end_with_termination [of
      "daemon_run [PubStart 1700000000, SubStart None, PubIter 1700000030 ''whisper'' (Some ''store closed'')]
        (snd (PreRun (good_setup Map.empty ''addr'') (boot Map.empty)))"
      "[PubIter 1700000060 ''again'' None]"
      "AppendFailed ''store closed''" Sigint "good_setup Map.empty ''addr''" Map.empty]
    effects_end_with_termination [of
      "snd (PreRun (good_setup Map.empty ''addr'') (boot Map.empty))"
      "[PubStart 1700000000, SubStart None, SubIter (Inl ''store closed'')]"
      "ListFailed ''store closed''" Sigint "good_setup Map.empty ''addr''" Map.empty]
  by (simp add: eval_simps)

text \<open>
  The claim as stated fails: after the producer's fatal error has cancelled the context, a
  pass of the consumer that starts afterwards still writes; after the consumer's fatal
  error, a pass of the producer still appends.
\<close>

theorem effects_after_cancellation_counterexample:
  "ctx_done (daemon_run [PubStart 1700000000, SubStart None, PubIter 1700000030 ''whisper'' (Some ''store closed'')]
      (snd (PreRun (good_setup Map.empty ''addr'') (boot Map.empty)))) \<and>
   sink (daemon_run [PubStart 1700000000, SubStart None, PubIter 1700000030 ''whisper'' (Some ''store closed'')]
      (snd (PreRun (good_setup Map.empty ''addr'') (boot Map.empty)))) = [] \<and>
   sink (daemon_step (SubIter (Inr [Operation (Some ''A'')]))
      (daemon_run [PubStart 1700000000, SubStart None, PubIter 1700000030 ''whisper'' (Some ''store closed'')]
        (snd (PreRun (good_setup Map.empty ''addr'') (boot Map.empty))))) = [''A'' @ [newline]] \<and>
   ctx_done (daemon_run [PubStart 1700000000, SubStart None, SubIter (Inl ''store closed'')]
      (snd (PreRun (good_setup Map.empty ''addr'') (boot Map.empty)))) \<and>
   log_adds (daemon_run [PubStart 1700000000, SubStart None, SubIter (Inl ''store closed'')]
      (snd (PreRun (good_setup Map.empty ''addr'') (boot Map.empty)))) = [] \<and>
   log_adds (daemon_step (PubIter 1700000030 ''whisper'' None)
      (daemon_run [PubStart 1700000000, SubStart None, SubIter (Inl ''store closed'')]
        (snd (PreRun (good_setup Map.empty ''addr'') (boot Map.empty))))) = [''whisper'']"
  by (simp add: eval_simps)

section \<open>Closing the log file\<close>

lemma file_handle_step:
  assumes "(subscriber s = NotStarted \<and> file_opens s = 0 \<and> file_closes s = 0) \<or>
           (subscriber s = Running \<and> file_opens s = 1 \<and> file_closes s = 0) \<or>
           (\<exists>e. subscriber s = Panicked (OpenFailed e) \<and> file_opens s = 0 \<and> file_closes s = 0) \<or>
           (\<exists>e. subscriber s = Panicked (ListFailed e) \<and> file_opens s = 1 \<and> file_closes s = 1)"
  shows "(subscriber (daemon_step ev s) = NotStarted \<and> file_opens (daemon_step ev s) = 0 \<and>
            file_closes (daemon_step ev s) = 0) \<or>
         (subscriber (daemon_step ev s) = Running \<and> file_opens (daemon_step ev s) = 1 \<and>
            file_closes (daemon_step ev s) = 0) \<or>
         (\<exists>e. subscriber (daemon_step ev s) = Panicked (OpenFailed e) \<and>
            file_opens (daemon_step ev s) = 0 \<and> file_closes (daemon_step ev s) = 0) \<or>
         (\<exists>e. subscriber (daemon_step ev s) = Panicked (ListFailed e) \<and>
            file_opens (daemon_step ev s) = 1 \<and> file_closes (daemon_step ev s) = 1)"
  using assms by (cases ev) (auto simp: step_simps split: option.splits sum.splits)

lemma file_handle_run:
  assumes "(subscriber s = NotStarted \<and> file_opens s = 0 \<and> file_closes s = 0) \<or>
           (subscriber s = Running \<and> file_opens s = 1 \<and> file_closes s = 0) \<or>
           (\<exists>e. subscriber s = Panicked (OpenFailed e) \<and> file_opens s = 0 \<and> file_closes s = 0) \<or>
           (\<exists>e. subscriber s = Panicked (ListFailed e) \<and> file_opens s = 1 \<and> file_closes s = 1)"
  shows "(subscriber (daemon_run es s) = NotStarted \<and> file_opens (daemon_run es s) = 0 \<and>
            file_closes (daemon_run es s) = 0) \<or>
         (subscriber (daemon_run es s) = Running \<and> file_opens (daemon_run es s) = 1 \<and>
            file_closes (daemon_run es s) = 0) \<or>
         (\<exists>e. subscriber (daemon_run es s) = Panicked (OpenFailed e) \<and>
            file_opens (daemon_run es s) = 0 \<and> file_closes (daemon_run es s) = 0) \<or>
         (\<exists>e. subscriber (daemon_run es s) = Panicked (ListFailed e) \<and>
            file_opens (daemon_run es s) = 1 \<and> file_closes (daemon_run es s) = 1)"
  using assms
proof (induction es arbitrary: s)
  case Nil
  then show ?case by (simp add: run_Nil)
next
  case (Cons e es)
  show ?case
    unfolding run_Cons by (rule Cons.IH) (rule file_handle_step [OF Cons.prems])
qed

text \<open>
  Claim C7, as the code has it. In every state reached after a successful setup the log file
  has been opened at most once and closed at most once, never closed without having been
  opened; it is open or was opened exactly when the consumer is polling or has panicked on a
  \<^verbatim>\<open>List\<close> error, and it has been closed exactly when the consumer has panicked on a
  \<^verbatim>\<open>List\<close> error, the only way out of \<^verbatim>\<open>subscribe\<close> that runs its deferred \<^verbatim>\<open>file.Close\<close>.
\<close>

theorem sink_file_closed_at_most_once:
  assumes "fst (PreRun env (boot disk)) = None"
    and "s = daemon_run es (snd (PreRun env (boot disk)))"
  shows "file_opens s \<le> 1 \<and> file_closes s \<le> file_opens s \<and>
         (file_opens s = 1) = (subscriber s = Running \<or> (\<exists>e. subscriber s = Panicked (ListFailed e))) \<and>
         (file_closes s = 1) = (\<exists>e. subscriber s = Panicked (ListFailed e))"
proof -
  let ?s0 = "snd (PreRun env (boot disk))"
  have "subscriber ?s0 = NotStarted \<and> file_opens ?s0 = 0 \<and> file_closes ?s0 = 0"
    by (simp add: PreRun_untouched boot_def)
  then have "(subscriber ?s0 = NotStarted \<and> file_opens ?s0 = 0 \<and> file_closes ?s0 = 0) \<or>
           (subscriber ?s0 = Running \<and> file_opens ?s0 = 1 \<and> file_closes ?s0 = 0) \<or>
           (\<exists>e. subscriber ?s0 = Panicked (OpenFailed e) \<and> file_opens ?s0 = 0 \<and> file_closes ?s0 = 0) \<or>
           (\<exists>e. subscriber ?s0 = Panicked (ListFailed e) \<and> file_opens ?s0 = 1 \<and> file_closes ?s0 = 1)"
    by blast
  from file_handle_run [OF this, of es] show ?thesis
    unfolding assms(2) by auto
qed

theorem sink_file_closed_at_most_once_witness:
  "fst (PreRun (good_setup Map.empty ''addr'') (boot Map.empty)) = None \<and>
   file_opens (daemon_run [PubStart 1700000000, SubStart None, SubIter (Inl ''store closed''), ExitPanic]
      (snd (PreRun (good_setup Map.empty ''addr'') (boot Map.empty)))) = 1 \<and>
   file_closes (daemon_run [PubStart 1700000000, SubStart None, SubIter (Inl ''store closed''), ExitPanic]
      (snd (PreRun (good_setup Map.empty ''addr'') (boot Map.empty)))) = 1 \<and>
   subscriber (daemon_run [PubStart 1700000000, SubStart None, SubIter (Inl ''store closed''), ExitPanic]
      (snd (PreRun (good_setup Map.empty ''addr'') (boot Map.empty))))
     = Panicked (ListFailed ''store closed'')"
  using sink_file_closed_at_most_once [of "good_setup Map.empty ''addr''" Map.empty _
      "[PubStart 1700000000, SubStart None, SubIter (Inl ''store closed''), ExitPanic]", OF _ refl]
  by (simp add: eval_simps)

text \<open>
  The claim as stated fails on two of the three exit paths: after the interrupt, and after
  the producer's fatal error, the process ends with the file opened and never closed by the
  program.
\<close>

theorem sink_file_not_closed_counterexample:
  "exit_code (daemon_run [PubStart 1700000000, SubStart None, Sigint, ExitMain]
      (snd (PreRun (good_setup Map.empty ''addr'') (boot Map.empty)))) = Some 0 \<and>
   file_opens (daemon_run [PubStart 1700000000, SubStart None, Sigint, ExitMain]
      (snd (PreRun (good_setup Map.empty ''addr'') (boot Map.empty)))) = 1 \<and>
   file_closes (daemon_run [PubStart 1700000000, SubStart None, Sigint, ExitMain]
      (snd (PreRun (good_setup Map.empty ''addr'') (boot Map.empty)))) = 0 \<and>
   exit_code (daemon_run [PubStart 1700000000, SubStart None,
        PubIter 1700000030 ''whisper'' (Some ''store closed''), ExitPanic]
      (snd (PreRun (good_setup Map.empty ''addr'') (boot Map.empty)))) = Some 2 \<and>
   file_opens (daemon_run [PubStart 1700000000, SubStart None,
        PubIter 1700000030 ''whisper'' (Some ''store closed''), ExitPanic]
      (snd (PreRun (good_setup Map.empty ''addr'') (boot Map.empty)))) = 1 \<and>
   file_closes (daemon_run [PubStart 1700000000, SubStart None,
        PubIter 1700000030 ''whisper'' (Some ''store closed''), ExitPanic]
      (snd (PreRun (good_setup Map.empty ''addr'') (boot Map.empty)))) = 0"
  by (simp add: eval_simps)

section \<open>Writing the configuration\<close>

lemma conf_step:
  "conf_writes (daemon_step e s) = conf_writes s \<and> conf_file (daemon_step e s) = conf_file s"
  by (cases e) (auto simp: step_simps split: option.splits sum.splits)

lemma conf_run:
  "conf_writes (daemon_run es s) = conf_writes s \<and> conf_file (daemon_run es s) = conf_file s"
  by (induction es arbitrary: s) (simp_all add: run_Nil run_Cons conf_step)

lemma PreRun_ok_conf:
  assumes "fst (PreRun env s) = None"
  shows "\<exists>address. log_store env = Inr address \<and>
           conf_file (snd (PreRun env s)) = (loaded env)(''orbitdb.storeaddress'' \<mapsto> address) \<and>
           conf_writes (snd (PreRun env s)) = conf_writes s + 1"
  using assms
  by (auto simp: PreRun_def Set_def WriteConfig_def Let_def split: option.splits sum.splits)

lemma PreRun_failed_conf:
  assumes "fst (PreRun env s) \<noteq> None"
  shows "conf_writes (snd (PreRun env s)) = conf_writes s \<and>
         conf_file (snd (PreRun env s)) = conf_file s"
  using assms
  by (auto simp: PreRun_def Set_def WriteConfig_def Let_def split: option.splits sum.splits)

lemma combined_iter_conf:
  "conf (snd (combined_iter now a l s)) = conf s \<and>
   conf_file (snd (combined_iter now a l s)) = conf_file s \<and>
   conf_writes (snd (combined_iter now a l s)) = conf_writes s \<and>
   main_routine (snd (combined_iter now a l s)) = main_routine s \<and>
   exit_code (snd (combined_iter now a l s)) = exit_code s"
  by (auto simp: combined_iter_def Let_def split: option.splits sum.splits)

lemma combined_conf_step:
  assumes "conf s = c"
    and "(main_routine s = Running \<and> conf_writes s = w \<and> conf_file s = f) \<or>
         (main_routine s = Returned \<and> conf_writes s = w + 1 \<and> conf_file s = c) \<or>
         (\<exists>e. main_routine s = Panicked e \<and> conf_writes s = w \<and> conf_file s = f)"
  shows "conf (combined_step ev s) = c \<and>
        ((main_routine (combined_step ev s) = Running \<and> conf_writes (combined_step ev s) = w \<and>
            conf_file (combined_step ev s) = f) \<or>
         (main_routine (combined_step ev s) = Returned \<and>
            conf_writes (combined_step ev s) = w + 1 \<and> conf_file (combined_step ev s) = c) \<or>
         (\<exists>e. main_routine (combined_step ev s) = Panicked e \<and>
            conf_writes (combined_step ev s) = w \<and> conf_file (combined_step ev s) = f))"
proof (cases ev)
  case (LoopIter now a l)
  obtain r s' where r: "combined_iter now a l s = (r, s')" by (cases "combined_iter now a l s")
  from combined_iter_conf [of now a l s] r
  have "conf s' = conf s" "conf_file s' = conf_file s" "conf_writes s' = conf_writes s"
    "main_routine s' = main_routine s"
    by simp_all
  then show ?thesis
    using assms LoopIter r by (cases r) (auto simp: cancel_def)
qed (use assms in \<open>auto simp: WriteConfig_def split: option.splits\<close>)

lemma combined_conf_run:
  assumes "conf s = c"
    and "(main_routine s = Running \<and> conf_writes s = w \<and> conf_file s = f) \<or>
         (main_routine s = Returned \<and> conf_writes s = w + 1 \<and> conf_file s = c) \<or>
         (\<exists>e. main_routine s = Panicked e \<and> conf_writes s = w \<and> conf_file s = f)"
  shows "conf (combined_run es s) = c \<and>
        ((main_routine (combined_run es s) = Running \<and> conf_writes (combined_run es s) = w \<and>
            conf_file (combined_run es s) = f) \<or>
         (main_routine (combined_run es s) = Returned \<and>
            conf_writes (combined_run es s) = w + 1 \<and> conf_file (combined_run es s) = c) \<or>
         (\<exists>e. main_routine (combined_run es s) = Panicked e \<and>
            conf_writes (combined_run es s) = w \<and> conf_file (combined_run es s) = f))"
  using assms
proof (induction es arbitrary: s)
  case Nil
  then show ?case by (simp add: combined_run_def)
next
  case (Cons e es)
  from combined_conf_step [OF Cons.prems, of e]
  have "conf (combined_step e s) = c" and
    "(main_routine (combined_step e s) = Running \<and> conf_writes (combined_step e s) = w \<and>
        conf_file (combined_step e s) = f) \<or>
     (main_routine (combined_step e s) = Returned \<and>
        conf_writes (combined_step e s) = w + 1 \<and> conf_file (combined_step e s) = c) \<or>
     (\<exists>x. main_routine (combined_step e s) = Panicked x \<and>
        conf_writes (combined_step e s) = w \<and> conf_file (combined_step e s) = f)"
    by blast+
  from Cons.IH [OF this] show ?case by (simp add: combined_run_def)
qed

text \<open>
  Claim C8, as the code has it. In \<^verbatim>\<open>cmd/daemon.go\<close> a setup that succeeds writes the
  configuration exactly once, in \<^verbatim>\<open>PreRun\<close>: the file then holds the loaded configuration
  with the resolved store address, neither loop has started and the context is not
  cancelled; no event of the running daemon, the interrupt and the exit included, writes it
  again. A setup that fails writes nothing. In the combined-loop variant, from a state in
  which \<^verbatim>\<open>Run\<close> waits for the interrupt, the configuration in memory has been written, once,
  exactly in the states in which \<^verbatim>\<open>Run\<close> has returned, that is after the interrupt has
  arrived and \<^verbatim>\<open>WriteConfig\<close> has succeeded; in every other state nothing has been written.
  There the interrupt leaves the context as it is, a pass of the loop, panicking or not,
  writes nothing, and the only step that writes is the successful save after the interrupt,
  taken while \<^verbatim>\<open>Run\<close> waits and the process is alive.
\<close>

theorem config_written_once:
  "(fst (PreRun env (boot disk)) = None \<longrightarrow>
      (\<exists>address. log_store env = Inr address \<and>
         conf_file (snd (PreRun env (boot disk))) =
           (loaded env)(''orbitdb.storeaddress'' \<mapsto> address)) \<and>
      conf_writes (snd (PreRun env (boot disk))) = 1 \<and>
      publisher (snd (PreRun env (boot disk))) = NotStarted \<and>
      subscriber (snd (PreRun env (boot disk))) = NotStarted \<and>
      \<not> ctx_done (snd (PreRun env (boot disk))) \<and>
      conf_writes (daemon_run es (snd (PreRun env (boot disk)))) = 1 \<and>
      conf_file (daemon_run es (snd (PreRun env (boot disk)))) =
        conf_file (snd (PreRun env (boot disk)))) \<and>
   (fst (PreRun env (boot disk)) \<noteq> None \<longrightarrow>
      conf_writes (snd (PreRun env (boot disk))) = 0 \<and>
      conf_file (snd (PreRun env (boot disk))) = disk) \<and>
   (main_routine s = Running \<longrightarrow>
      (main_routine (combined_run ces s) = Returned \<and>
       conf_writes (combined_run ces s) = conf_writes s + 1 \<and>
       conf_file (combined_run ces s) = conf s) \<or>
      (main_routine (combined_run ces s) \<noteq> Returned \<and>
       conf_writes (combined_run ces s) = conf_writes s \<and>
       conf_file (combined_run ces s) = conf_file s)) \<and>
   ctx_done (combined_step (SigintSave w) s) = ctx_done s \<and>
   conf_writes (combined_step (LoopIter now a l) s) = conf_writes s \<and>
   (conf_writes (combined_step ev s) \<noteq> conf_writes s \<longrightarrow>
      ev = SigintSave None \<and> main_routine s = Running \<and> \<not> exited s)"
proof (intro conjI impI)
  let ?s0 = "snd (PreRun env (boot disk))"
  assume ok: "fst (PreRun env (boot disk)) = None"
  from PreRun_ok_conf [OF ok] obtain address where
    a: "log_store env = Inr address"
       "conf_file ?s0 = (loaded env)(''orbitdb.storeaddress'' \<mapsto> address)"
       "conf_writes ?s0 = conf_writes (boot disk) + 1"
    by blast
  from a(1,2) show "\<exists>address. log_store env = Inr address \<and>
         conf_file ?s0 = (loaded env)(''orbitdb.storeaddress'' \<mapsto> address)"
    by blast
  from a(3) show w: "conf_writes ?s0 = 1" by (simp add: boot_def)
  show "publisher ?s0 = NotStarted" "subscriber ?s0 = NotStarted"
    by (simp_all add: PreRun_untouched boot_def)
  show "\<not> ctx_done ?s0" by (rule PreRun_ok_ctx [OF ok])
  show "conf_writes (daemon_run es ?s0) = 1" using w by (simp add: conf_run)
  show "conf_file (daemon_run es ?s0) = conf_file ?s0" by (simp add: conf_run)
next
  assume bad: "fst (PreRun env (boot disk)) \<noteq> None"
  from PreRun_failed_conf [OF bad]
  show "conf_writes (snd (PreRun env (boot disk))) = 0"
    "conf_file (snd (PreRun env (boot disk))) = disk"
    by (simp_all add: boot_def)
next
  assume m: "main_routine s = Running"
  then have "(main_routine s = Running \<and> conf_writes s = conf_writes s \<and> conf_file s = conf_file s) \<or>
         (main_routine s = Returned \<and> conf_writes s = conf_writes s + 1 \<and> conf_file s = conf s) \<or>
         (\<exists>e. main_routine s = Panicked e \<and> conf_writes s = conf_writes s \<and> conf_file s = conf_file s)"
    by simp
  from combined_conf_run [OF refl this, of ces]
  show "(main_routine (combined_run ces s) = Returned \<and>
       conf_writes (combined_run ces s) = conf_writes s + 1 \<and>
       conf_file (combined_run ces s) = conf s) \<or>
      (main_routine (combined_run ces s) \<noteq> Returned \<and>
       conf_writes (combined_run ces s) = conf_writes s \<and>
       conf_file (combined_run ces s) = conf_file s)"
    by auto
next
  show "ctx_done (combined_step (SigintSave w) s) = ctx_done s"
    by (simp add: WriteConfig_def split: option.splits)
next
  obtain r s' where r: "combined_iter now a l s = (r, s')" by (cases "combined_iter now a l s")
  from combined_iter_conf [of now a l s] r have "conf_writes s' = conf_writes s" by simp
  then show "conf_writes (combined_step (LoopIter now a l) s) = conf_writes s"
    using r by (cases r) (auto simp: cancel_def)
next
  assume ch: "conf_writes (combined_step ev s) \<noteq> conf_writes s"
  have "ev = SigintSave None \<and> main_routine s = Running \<and> \<not> exited s"
  proof (cases ev)
    case (LoopIter n x y)
    obtain r s' where r: "combined_iter n x y s = (r, s')" by (cases "combined_iter n x y s")
    from combined_iter_conf [of n x y s] r have "conf_writes s' = conf_writes s" by simp
    then have "conf_writes (combined_step ev s) = conf_writes s"
      using r LoopIter by (cases r) (auto simp: cancel_def)
    with ch show ?thesis by simp
  qed (use ch in \<open>auto simp: WriteConfig_def split: option.splits if_splits\<close>)
  then show "ev = SigintSave None" "main_routine s = Running" "\<not> exited s"
    by blast+
qed

theorem config_written_once_witness:
  "fst (PreRun (good_setup Map.empty ''addr'') (boot Map.empty)) = None \<and>
   conf_writes (daemon_run [PubStart 1700000000, SubStart None, Sigint, ExitMain]
      (snd (PreRun (good_setup Map.empty ''addr'') (boot Map.empty)))) = 1 \<and>
   fst (PreRun ((good_setup Map.empty ''addr'')\<lparr>orbitdb := Some ''no pubsub''\<rparr>) (boot Map.empty))
     \<noteq> None \<and>
   conf_writes (snd (PreRun ((good_setup Map.empty ''addr'')\<lparr>orbitdb := Some ''no pubsub''\<rparr>)
      (boot Map.empty))) = 0 \<and>
   main_routine (boot Map.empty) = Running \<and>
   conf_writes (combined_run [LoopStart, LoopIter ''t1'' None (Inr [Operation (Some '' t1'')]),
      SigintSave None, CExitMain] (boot Map.empty)) = 1 \<and>
   conf_writes (combined_run [LoopStart, LoopIter ''t1'' (Some ''store closed'') (Inr []),
      CExitPanic] (boot Map.empty)) = 0 \<and>
   main_routine (combined_run [LoopStart, SigintSave None,
      LoopIter ''t1'' (Some ''store closed'') (Inr []), CExitPanic] (boot Map.empty)) = Returned \<and>
   exit_code (combined_run [LoopStart, SigintSave None,
      LoopIter ''t1'' (Some ''store closed'') (Inr []), CExitPanic] (boot Map.empty)) = Some 2 \<and>
   conf_writes (combined_run [LoopStart, SigintSave None,
      LoopIter ''t1'' (Some ''store closed'') (Inr []), CExitPanic] (boot Map.empty)) = 1 \<and>
   conf_writes (combined_step (SigintSave None) (boot Map.empty)) \<noteq> conf_writes (boot Map.empty) \<and>
   \<not> exited (boot Map.empty)"
  using config_written_once [of "good_setup Map.empty ''addr''" Map.empty
      "[PubStart 1700000000, SubStart None, Sigint, ExitMain]" "boot Map.empty"
      "[LoopStart, LoopIter ''t1'' None (Inr [Operation (Some '' t1'')]), SigintSave None, CExitMain]"]
    config_written_once [of "(good_setup Map.empty ''addr'')\<lparr>orbitdb := Some ''no pubsub''\<rparr>"
      Map.empty "[]" "boot Map.empty"
      "[LoopStart, LoopIter ''t1'' (Some ''store closed'') (Inr []), CExitPanic]"]
    config_written_once [of "good_setup Map.empty ''addr''" Map.empty "[]" "boot Map.empty"
      "[LoopStart, SigintSave None, LoopIter ''t1'' (Some ''store closed'') (Inr []),
        CExitPanic]"]
    config_written_once [where s = "boot Map.empty" and ev = "SigintSave None"
      and env = "good_setup Map.empty ''addr''" and disk = Map.empty and es = "[]" and ces = "[]"]
  by (simp add: eval_simps combined_run_def combined_iter_def cancel_def GetString_def Sprintln_def)

text \<open>
  The claim as stated fails for \<^verbatim>\<open>cmd/daemon.go\<close>: the one write has happened when setup
  ends, with the daemon running and nothing cancelled, and the shutdown adds none.
\<close>

theorem config_written_at_startup_counterexample:
  "conf_writes (boot Map.empty) = 0 \<and>
   conf_file (boot Map.empty) ''orbitdb.storeaddress'' = None \<and>
   fst (PreRun (good_setup Map.empty ''addr'') (boot Map.empty)) = None \<and>
   conf_writes (snd (PreRun (good_setup Map.empty ''addr'') (boot Map.empty))) = 1 \<and>
   conf_file (snd (PreRun (good_setup Map.empty ''addr'') (boot Map.empty)))
     ''orbitdb.storeaddress'' = Some ''addr'' \<and>
   \<not> ctx_done (snd (PreRun (good_setup Map.empty ''addr'') (boot Map.empty))) \<and>
   \<not> exited (snd (PreRun (good_setup Map.empty ''addr'') (boot Map.empty))) \<and>
   main_routine (snd (PreRun (good_setup Map.empty ''addr'') (boot Map.empty))) = Running \<and>
   exit_code (daemon_run [PubStart 1700000000, SubStart None, Sigint, ExitMain]
      (snd (PreRun (good_setup Map.empty ''addr'') (boot Map.empty)))) = Some 0 \<and>
   conf_writes (daemon_run [PubStart 1700000000, SubStart None, Sigint, ExitMain]
      (snd (PreRun (good_setup Map.empty ''addr'') (boot Map.empty)))) =
     conf_writes (snd (PreRun (good_setup Map.empty ''addr'') (boot Map.empty)))"
  by (simp add: eval_simps)

end
